theory Spec2Isabelle
  imports Main "HOL-Library.Word"
begin

unbundle bit_operations_syntax

section \<open>Fixed-point arithmetic\<close>

text \<open>
  The C integer types of the sources are modelled as machine words: \<open>int16_t\<close> is
  \<open>16 word\<close>, \<open>int32_t\<close> and \<open>uint32_t\<close> are \<open>32 word\<close>, \<open>int64_t\<close> is \<open>64 word\<close>.
  A widening conversion of a signed value is \<open>scast\<close>, a narrowing conversion keeps
  the low bits (\<open>ucast\<close>), and \<open>>>\<close> on a signed value is the arithmetic shift
  \<open>signed_drop_bit\<close>. Signed overflow, which C leaves undefined, wraps around.
\<close>

text \<open>\<open>FIX_MPY\<close> of correlation\_conv.c and g2\_correlation\_conv.c (32-bit operands).\<close>

definition FIX_MPY :: "32 word \<Rightarrow> 32 word \<Rightarrow> 32 word" where
  "FIX_MPY a b =
     (let c = signed_drop_bit 30 ((scast a :: 64 word) * (scast b :: 64 word));
          b' = (ucast (c AND 1) :: 32 word);
          a' = (ucast (signed_drop_bit 1 c + (scast b' :: 64 word)) :: 32 word)
      in a')"

text \<open>\<open>FIX_MPY_16\<close> of correlation\_conv.c (16-bit operands).\<close>

definition FIX_MPY_16 :: "16 word \<Rightarrow> 16 word \<Rightarrow> 16 word" where
  "FIX_MPY_16 a b =
     (let c = signed_drop_bit 14 ((scast a :: 32 word) * (scast b :: 32 word));
          b' = (ucast (c AND 1) :: 16 word);
          a' = (ucast (signed_drop_bit 1 c + (scast b' :: 32 word)) :: 16 word)
      in a')"

text \<open>\<open>FIX_MPY\<close> of g1\_correlation\_conv.c (16-bit operands, the same body as
  \<open>FIX_MPY_16\<close>).\<close>

definition g1conv_FIX_MPY :: "16 word \<Rightarrow> 16 word \<Rightarrow> 16 word" where
  "g1conv_FIX_MPY a b =
     (let c = signed_drop_bit 14 ((scast a :: 32 word) * (scast b :: 32 word));
          b' = (ucast (c AND 1) :: 16 word);
          a' = (ucast (signed_drop_bit 1 c + (scast b' :: 32 word)) :: 16 word)
      in a')"

section \<open>The in-place fixed-point FFT\<close>

text \<open>
  \<open>struct iq_pair_raw\<close> (two \<open>int16_t\<close>) and \<open>struct mult\<close> (two \<open>int32_t\<close>) are one
  record, with the component type as a parameter. A C array is a list; every index
  used below is shown to lie inside the array.
\<close>

record 'a iq =
  iq_i :: 'a
  iq_q :: 'a

type_synonym iq_pair_raw = "16 word iq"
type_synonym mult = "32 word iq"

definition N_WAVE :: nat where "N_WAVE = 1024"
definition LOG2_N_WAVE :: nat where "LOG2_N_WAVE = 10"

text \<open>
  The index variables of \<open>fix_fft\<close> (\<open>int16_t\<close> or \<open>int32_t\<close> in the source) stay between
  \<open>-1\<close> and \<open>2047\<close>, so they are integers and naturals here. A loop that would spin
  forever returns \<open>None\<close>.

  \<open>do { l >>= 1; } while (mr + l > nn);\<close>. When the shift no longer changes \<open>l\<close> and
  the condition still holds the loop never exits.
\<close>

function fft_halve :: "int \<Rightarrow> int \<Rightarrow> int \<Rightarrow> int option" where
  "fft_halve nn mr l =
     (let l' = drop_bit 1 l
      in if mr + l' > nn then (if l' = l then None else fft_halve nn mr l') else Some l')"
  by pat_completeness auto
termination
  by (relation "measure (\<lambda>(nn, mr, l). nat \<bar>l\<bar>)") (auto simp: drop_bit_eq_div)

text \<open>The exchange of \<open>f[m]\<close> and \<open>f[mr]\<close>, component by component as in the source.\<close>

definition fft_swap :: "'a iq list \<Rightarrow> nat \<Rightarrow> nat \<Rightarrow> 'a iq list" where
  "fft_swap f m mr =
     (let tr = iq_i (f ! m);
          f = f[m := (f ! m)\<lparr>iq_i := iq_i (f ! mr)\<rparr>];
          f = f[mr := (f ! mr)\<lparr>iq_i := tr\<rparr>];
          ti = iq_q (f ! m);
          f = f[m := (f ! m)\<lparr>iq_q := iq_q (f ! mr)\<rparr>];
          f = f[mr := (f ! mr)\<lparr>iq_q := ti\<rparr>]
      in f)"

text \<open>The decimation-in-time reordering loop \<open>for (m = 1; m <= nn; ++m)\<close>.\<close>

function fft_reorder :: "int \<Rightarrow> int \<Rightarrow> int \<Rightarrow> int \<Rightarrow> 'a iq list \<Rightarrow> 'a iq list option" where
  "fft_reorder n nn m mr f =
     (if m \<le> nn then
        (case fft_halve nn mr n of
           None \<Rightarrow> None
         | Some l \<Rightarrow>
            (let mr = (mr AND (l - 1)) + l
             in if mr \<le> m then fft_reorder n nn (m + 1) mr f
                else fft_reorder n nn (m + 1) mr (fft_swap f (nat m) (nat mr))))
      else Some f)"
  by pat_completeness auto
termination
  by (relation "measure (\<lambda>(n, nn, m, mr, f). nat (nn + 1 - m))") auto

text \<open>
  The body of the innermost loop: one butterfly on \<open>f[z]\<close> and \<open>f[j]\<close>. The multiply
  \<open>mpy\<close> is \<open>FIX_MPY\<close> or \<open>FIX_MPY_16\<close>, depending on the width.
\<close>

definition fft_butterfly ::
  "('a::len word \<Rightarrow> 'a word \<Rightarrow> 'a word) \<Rightarrow> 'a word \<Rightarrow> 'a word \<Rightarrow> nat \<Rightarrow> nat
   \<Rightarrow> 'a word iq list \<Rightarrow> 'a word iq list" where
  "fft_butterfly mpy wr wi z j f =
     (let tr = mpy wr (iq_i (f ! j)) - mpy wi (iq_q (f ! j));
          ti = mpy wr (iq_q (f ! j)) + mpy wi (iq_i (f ! j));
          qr = iq_i (f ! z);
          qi = iq_q (f ! z);
          qr = signed_drop_bit 1 qr;
          qi = signed_drop_bit 1 qi;
          f = f[j := (f ! j)\<lparr>iq_i := qr - tr\<rparr>];
          f = f[j := (f ! j)\<lparr>iq_q := qi - ti\<rparr>];
          f = f[z := (f ! z)\<lparr>iq_i := qr + tr\<rparr>];
          f = f[z := (f ! z)\<lparr>iq_q := qi + ti\<rparr>]
      in f)"

text \<open>\<open>for (z = m; z < n; z += zstep)\<close>; with \<open>zstep = 0\<close> it would not advance.\<close>

function fft_z_loop ::
  "('a::len word \<Rightarrow> 'a word \<Rightarrow> 'a word) \<Rightarrow> nat \<Rightarrow> nat \<Rightarrow> nat \<Rightarrow> 'a word \<Rightarrow> 'a word \<Rightarrow> nat
   \<Rightarrow> 'a word iq list \<Rightarrow> 'a word iq list option" where
  "fft_z_loop mpy n l zstep wr wi z f =
     (if z < n then
        (if zstep = 0 then None
         else let j = z + l
              in fft_z_loop mpy n l zstep wr wi (z + zstep) (fft_butterfly mpy wr wi z j f))
      else Some f)"
  by pat_completeness auto
termination
  by (relation "measure (\<lambda>(mpy, n, l, zstep, wr, wi, z, f). n - z)") auto

text \<open>
  \<open>for (m = 0; m < l; ++m)\<close> with the twiddle factors \<open>wr = ref[j + N_WAVE / 4] >> 1\<close>
  and \<open>wi = (-ref[j]) >> 1\<close>. The second one is the parameter \<open>neg_half\<close>: in the 16-bit
  transform the negation is done after the promotion to \<open>int\<close>, in the 32-bit one it
  is done in 32 bits.
\<close>

function fft_m_loop ::
  "('a::len word \<Rightarrow> 'a word \<Rightarrow> 'a word) \<Rightarrow> ('a word \<Rightarrow> 'a word) \<Rightarrow> 'a word list
   \<Rightarrow> nat \<Rightarrow> nat \<Rightarrow> int \<Rightarrow> nat \<Rightarrow> nat \<Rightarrow> 'a word iq list \<Rightarrow> 'a word iq list option" where
  "fft_m_loop mpy neg_half ref n l k zstep m f =
     (if m < l then
        (let j = push_bit (nat k) m;
             wr = signed_drop_bit 1 (ref ! (j + N_WAVE div 4));
             wi = neg_half (ref ! j)
         in case fft_z_loop mpy n l zstep wr wi m f of
              None \<Rightarrow> None
            | Some f \<Rightarrow> fft_m_loop mpy neg_half ref n l k zstep (m + 1) f)
      else Some f)"
  by pat_completeness auto
termination
  by (relation "measure (\<lambda>(mpy, neg_half, ref, n, l, k, zstep, m, f). l - m)") auto

text \<open>\<open>while (l < n)\<close>: one pass per butterfly stage; with \<open>l = 0\<close> it would not end.\<close>

function fft_stage_loop ::
  "('a::len word \<Rightarrow> 'a word \<Rightarrow> 'a word) \<Rightarrow> ('a word \<Rightarrow> 'a word) \<Rightarrow> 'a word list
   \<Rightarrow> nat \<Rightarrow> nat \<Rightarrow> int \<Rightarrow> 'a word iq list \<Rightarrow> 'a word iq list option" where
  "fft_stage_loop mpy neg_half ref n l k f =
     (if l < n then
        (if l = 0 then None
         else let zstep = push_bit 1 l
              in case fft_m_loop mpy neg_half ref n l k zstep 0 f of
                   None \<Rightarrow> None
                 | Some f \<Rightarrow> fft_stage_loop mpy neg_half ref n zstep (k - 1) f)
      else Some f)"
  by pat_completeness auto
termination
  by (relation "measure (\<lambda>(mpy, neg_half, ref, n, l, k, f). n - l)") (auto simp: push_bit_eq_mult)

text \<open>
  The body shared by the four \<open>fix_fft\<close> functions of the sources, which differ in the
  element width only.
\<close>

definition gen_fix_fft ::
  "('a::len word \<Rightarrow> 'a word \<Rightarrow> 'a word) \<Rightarrow> ('a word \<Rightarrow> 'a word)
   \<Rightarrow> 'a word iq list \<Rightarrow> 'a word list \<Rightarrow> 'a word iq list option" where
  "gen_fix_fft mpy neg_half f ref =
     (let m = LOG2_N_WAVE;
          n = push_bit m (1 :: int);
          mr = 0;
          nn = n - 1
      in case fft_reorder n nn 1 mr f of
           None \<Rightarrow> None
         | Some f \<Rightarrow> fft_stage_loop mpy neg_half ref (nat n) 1 (int LOG2_N_WAVE - 1) f)"

text \<open>\<open>(-ref[j]) >> 1\<close> on an \<open>int16_t\<close> table entry: negated and shifted as \<open>int\<close>.\<close>

definition neg_half_16 :: "16 word \<Rightarrow> 16 word" where
  "neg_half_16 r = ucast (signed_drop_bit 1 (- (scast r :: 32 word)))"

text \<open>\<open>(-ref[j]) >> 1\<close> on an \<open>int32_t\<close> table entry.\<close>

definition neg_half_32 :: "32 word \<Rightarrow> 32 word" where
  "neg_half_32 r = signed_drop_bit 1 (- r)"

text \<open>\<open>fix_fft\<close> of g2\_correlation\_conv.c and of correlation\_conv.c (32 bits).\<close>

definition fix_fft :: "mult list \<Rightarrow> 32 word list \<Rightarrow> mult list option" where
  "fix_fft f ref = gen_fix_fft FIX_MPY neg_half_32 f ref"

text \<open>\<open>fix_fft_16\<close> of correlation\_conv.c.\<close>

definition fix_fft_16 :: "iq_pair_raw list \<Rightarrow> 16 word list \<Rightarrow> iq_pair_raw list option" where
  "fix_fft_16 f ref = gen_fix_fft FIX_MPY_16 neg_half_16 f ref"

text \<open>\<open>fix_fft\<close> of g1\_correlation\_conv.c (16 bits).\<close>

definition g1conv_fix_fft :: "iq_pair_raw list \<Rightarrow> 16 word list \<Rightarrow> iq_pair_raw list option" where
  "g1conv_fix_fft f ref = gen_fix_fft g1conv_FIX_MPY neg_half_16 f ref"

section \<open>The correlation kernels of the FFT variants\<close>

text \<open>
  The accumulation loop of \<open>calc_g1\<close>, the same in g1\_correlation\_conv.c and in
  correlation\_conv.c. The products are taken in 64 bits.
\<close>

function g1_acc_loop ::
  "nat \<Rightarrow> 64 word list \<Rightarrow> 64 word list \<Rightarrow> iq_pair_raw list \<Rightarrow> iq_pair_raw list
   \<Rightarrow> 64 word list \<times> 64 word list" where
  "g1_acc_loop bin dest_real dest_imag D1 D2 =
     (if bin < N_WAVE then
        (let dest_real = dest_real[bin := dest_real ! bin +
                (scast (iq_i (D1 ! bin)) * scast (iq_i (D2 ! bin))
                 + scast (iq_q (D1 ! bin)) * scast (iq_q (D2 ! bin)))];
             dest_imag = dest_imag[bin := dest_imag ! bin +
                (scast (iq_i (D1 ! bin)) * scast (iq_q (D2 ! bin))
                 - scast (iq_q (D1 ! bin)) * scast (iq_i (D2 ! bin)))]
         in g1_acc_loop (bin + 1) dest_real dest_imag D1 D2)
      else (dest_real, dest_imag))"
  by pat_completeness auto
termination
  by (relation "measure (\<lambda>(bin, dest_real, dest_imag, D1, D2). N_WAVE - bin)") auto

text \<open>
  \<open>calc_g1\<close> of g1\_correlation\_conv.c. The four arrays are distinct data boxes; the
  result holds the two accumulators and the two channels, transformed in place.
\<close>

definition g1conv_calc_g1 ::
  "64 word list \<Rightarrow> 64 word list \<Rightarrow> iq_pair_raw list \<Rightarrow> iq_pair_raw list \<Rightarrow> 16 word list
   \<Rightarrow> (64 word list \<times> 64 word list \<times> iq_pair_raw list \<times> iq_pair_raw list) option" where
  "g1conv_calc_g1 dest_real dest_imag D1 D2 ref =
     (case g1conv_fix_fft D1 ref of
        None \<Rightarrow> None
      | Some D1 \<Rightarrow>
         (case g1conv_fix_fft D2 ref of
            None \<Rightarrow> None
          | Some D2 \<Rightarrow>
             (let (dest_real, dest_imag) = g1_acc_loop 0 dest_real dest_imag D1 D2
              in Some (dest_real, dest_imag, D1, D2))))"

text \<open>\<open>calc_g1\<close> of correlation\_conv.c.\<close>

definition calc_g1 ::
  "64 word list \<Rightarrow> 64 word list \<Rightarrow> iq_pair_raw list \<Rightarrow> iq_pair_raw list \<Rightarrow> 16 word list
   \<Rightarrow> (64 word list \<times> 64 word list \<times> iq_pair_raw list \<times> iq_pair_raw list) option" where
  "calc_g1 dest_real dest_imag D1 D2 ref =
     (case fix_fft_16 D1 ref of
        None \<Rightarrow> None
      | Some D1 \<Rightarrow>
         (case fix_fft_16 D2 ref of
            None \<Rightarrow> None
          | Some D2 \<Rightarrow>
             (let (dest_real, dest_imag) = g1_acc_loop 0 dest_real dest_imag D1 D2
              in Some (dest_real, dest_imag, D1, D2))))"

text \<open>The first loop of \<open>calc_g2\<close>: the product signal, computed in 32 bits.\<close>

function g2_mult_loop ::
  "nat \<Rightarrow> mult list \<Rightarrow> iq_pair_raw list \<Rightarrow> iq_pair_raw list \<Rightarrow> mult list" where
  "g2_mult_loop samp signal_mult D1 D2 =
     (if samp < N_WAVE then
        (let signal_mult = signal_mult[samp := (signal_mult ! samp)\<lparr>iq_i :=
                scast (iq_i (D1 ! samp)) * scast (iq_i (D2 ! samp))
                + scast (iq_q (D1 ! samp)) * scast (iq_q (D2 ! samp))\<rparr>];
             signal_mult = signal_mult[samp := (signal_mult ! samp)\<lparr>iq_q :=
                scast (iq_i (D1 ! samp)) * scast (iq_q (D2 ! samp))
                - scast (iq_q (D1 ! samp)) * scast (iq_i (D2 ! samp))\<rparr>]
         in g2_mult_loop (samp + 1) signal_mult D1 D2)
      else signal_mult)"
  by pat_completeness auto
termination
  by (relation "measure (\<lambda>(samp, signal_mult, D1, D2). N_WAVE - samp)") auto

text \<open>The last loop of \<open>calc_g2\<close>, with the mirror index \<open>(N_WAVE - samp) % N_WAVE\<close>.\<close>

function g2_acc_loop ::
  "nat \<Rightarrow> 64 word list \<Rightarrow> 64 word list \<Rightarrow> mult list \<Rightarrow> 64 word list \<times> 64 word list" where
  "g2_acc_loop samp dest_real dest_imag signal_mult =
     (if samp < N_WAVE then
        (let dest_real = dest_real[samp := dest_real ! samp +
                (scast (iq_i (signal_mult ! ((N_WAVE - samp) mod N_WAVE)))
                   * scast (iq_i (signal_mult ! samp))
                 - scast (iq_q (signal_mult ! ((N_WAVE - samp) mod N_WAVE)))
                   * scast (iq_q (signal_mult ! samp)))];
             dest_imag = dest_imag[samp := dest_imag ! samp +
                (scast (iq_i (signal_mult ! ((N_WAVE - samp) mod N_WAVE)))
                   * scast (iq_q (signal_mult ! samp))
                 + scast (iq_q (signal_mult ! ((N_WAVE - samp) mod N_WAVE)))
                   * scast (iq_i (signal_mult ! samp)))]
         in g2_acc_loop (samp + 1) dest_real dest_imag signal_mult)
      else (dest_real, dest_imag))"
  by pat_completeness auto
termination
  by (relation "measure (\<lambda>(samp, dest_real, dest_imag, signal_mult). N_WAVE - samp)") auto

text \<open>
  \<open>calc_g2\<close>, the same in g2\_correlation\_conv.c and in correlation\_conv.c. The result
  holds the two accumulators and the scratch array \<open>signal_mult\<close>.
\<close>

definition calc_g2 ::
  "64 word list \<Rightarrow> 64 word list \<Rightarrow> iq_pair_raw list \<Rightarrow> iq_pair_raw list \<Rightarrow> 32 word list
   \<Rightarrow> mult list \<Rightarrow> (64 word list \<times> 64 word list \<times> mult list) option" where
  "calc_g2 dest_real dest_imag D1 D2 ref signal_mult =
     (let signal_mult = g2_mult_loop 0 signal_mult D1 D2
      in case fix_fft signal_mult ref of
           None \<Rightarrow> None
         | Some signal_mult \<Rightarrow>
            (let (dest_real, dest_imag) = g2_acc_loop 0 dest_real dest_imag signal_mult
             in Some (dest_real, dest_imag, signal_mult)))"

section \<open>The direct (windowed) g1 and g2 variants\<close>

definition G1CALC_SAMPLE_NUM :: nat where "G1CALC_SAMPLE_NUM = 1024"
definition G2CALC_SAMPLE_NUM :: nat where "G2CALC_SAMPLE_NUM = 1024"

text \<open>
  \<open>g1calc_real_part\<close> and \<open>g1calc_imag_part\<close> of g1\_correlation.c. The accumulator
  cell \<open>*dest\<close> is passed in and returned. The counter \<open>t\<close> (an \<open>int\<close> compared with the
  unsigned \<open>samp_num\<close>) is a natural number; the index \<open>t + tau\<close> is computed in
  unsigned 32-bit arithmetic as in C. The right shift of the \<open>int64_t\<close> term by a count of
  64 or more is undefined in C: the result is then \<open>None\<close>. With \<open>samp_num = 0\<close> no shift is
  executed and \<open>*dest\<close> is returned as it is.
\<close>

function g1calc_real_part_loop ::
  "nat \<Rightarrow> 64 word \<Rightarrow> 32 word \<Rightarrow> iq_pair_raw list \<Rightarrow> iq_pair_raw list \<Rightarrow> 32 word \<Rightarrow> 32 word
   \<Rightarrow> 64 word option" where
  "g1calc_real_part_loop t dest samp_num D1 D2 tau shift =
     (if t < unat samp_num then
        (if unat shift < 64 then
           g1calc_real_part_loop (t + 1)
             (dest + signed_drop_bit (unat shift)
                (scast (iq_i (D1 ! t)) * scast (iq_i (D2 ! unat (word_of_nat t + tau)))
                 + scast (iq_q (D1 ! t)) * scast (iq_q (D2 ! unat (word_of_nat t + tau)))))
             samp_num D1 D2 tau shift
         else None)
      else Some dest)"
  by pat_completeness auto
termination
  by (relation "measure (\<lambda>(t, dest, samp_num, D1, D2, tau, shift). unat samp_num - t)") auto

definition g1calc_real_part ::
  "64 word \<Rightarrow> 32 word \<Rightarrow> iq_pair_raw list \<Rightarrow> iq_pair_raw list \<Rightarrow> 32 word \<Rightarrow> 32 word \<Rightarrow> 64 word option" where
  "g1calc_real_part dest samp_num D1 D2 tau shift =
     g1calc_real_part_loop 0 dest samp_num D1 D2 tau shift"

function g1calc_imag_part_loop ::
  "nat \<Rightarrow> 64 word \<Rightarrow> 32 word \<Rightarrow> iq_pair_raw list \<Rightarrow> iq_pair_raw list \<Rightarrow> 32 word \<Rightarrow> 32 word
   \<Rightarrow> 64 word option" where
  "g1calc_imag_part_loop t dest samp_num D1 D2 tau shift =
     (if t < unat samp_num then
        (if unat shift < 64 then
           g1calc_imag_part_loop (t + 1)
             (dest + signed_drop_bit (unat shift)
                (scast (iq_i (D1 ! t)) * scast (iq_q (D2 ! unat (word_of_nat t + tau)))
                 - scast (iq_q (D1 ! t)) * scast (iq_i (D2 ! unat (word_of_nat t + tau)))))
             samp_num D1 D2 tau shift
         else None)
      else Some dest)"
  by pat_completeness auto
termination
  by (relation "measure (\<lambda>(t, dest, samp_num, D1, D2, tau, shift). unat samp_num - t)") auto

definition g1calc_imag_part ::
  "64 word \<Rightarrow> 32 word \<Rightarrow> iq_pair_raw list \<Rightarrow> iq_pair_raw list \<Rightarrow> 32 word \<Rightarrow> 32 word \<Rightarrow> 64 word option" where
  "g1calc_imag_part dest samp_num D1 D2 tau shift =
     g1calc_imag_part_loop 0 dest samp_num D1 D2 tau shift"

text \<open>
  The summands of \<open>g2calc_real_part\<close> and \<open>g2calc_imag_part\<close> of g2\_correlation.c,
  before the shift: eight products of four samples each, in 64 bits. \<open>a\<close> is \<open>D1[t]\<close>,
  \<open>a'\<close> is \<open>D1[t + tau]\<close>, \<open>b'\<close> is \<open>D2[t + tau]\<close> and \<open>b\<close> is \<open>D2[t]\<close>.
\<close>

definition g2_real_term :: "iq_pair_raw \<Rightarrow> iq_pair_raw \<Rightarrow> iq_pair_raw \<Rightarrow> iq_pair_raw \<Rightarrow> 64 word" where
  "g2_real_term a a' b' b =
       scast (iq_i a) * scast (iq_i a') * scast (iq_i b') * scast (iq_i b)
     - scast (iq_i a) * scast (iq_i a') * scast (iq_q b') * scast (iq_q b)
     + scast (iq_q a) * scast (iq_i a') * scast (iq_q b') * scast (iq_i b)
     + scast (iq_q a) * scast (iq_i a') * scast (iq_i b') * scast (iq_q b)
     + scast (iq_i a) * scast (iq_q a') * scast (iq_q b') * scast (iq_i b)
     + scast (iq_i a) * scast (iq_q a') * scast (iq_i b') * scast (iq_q b)
     - scast (iq_q a) * scast (iq_q a') * scast (iq_i b') * scast (iq_i b)
     + scast (iq_q a) * scast (iq_q a') * scast (iq_q b') * scast (iq_q b)"

definition g2_imag_term :: "iq_pair_raw \<Rightarrow> iq_pair_raw \<Rightarrow> iq_pair_raw \<Rightarrow> iq_pair_raw \<Rightarrow> 64 word" where
  "g2_imag_term a a' b' b =
       scast (iq_i a) * scast (iq_i a') * scast (iq_q b') * scast (iq_i b)
     + scast (iq_i a) * scast (iq_i a') * scast (iq_i b') * scast (iq_q b)
     - scast (iq_q a) * scast (iq_i a') * scast (iq_i b') * scast (iq_i b)
     + scast (iq_q a) * scast (iq_i a') * scast (iq_q b') * scast (iq_q b)
     - scast (iq_i a) * scast (iq_q a') * scast (iq_i b') * scast (iq_i b)
     + scast (iq_i a) * scast (iq_q a') * scast (iq_q b') * scast (iq_q b)
     - scast (iq_q a) * scast (iq_q a') * scast (iq_q b') * scast (iq_i b)
     - scast (iq_q a) * scast (iq_q a') * scast (iq_i b') * scast (iq_q b)"

function g2calc_real_part_loop ::
  "nat \<Rightarrow> 64 word \<Rightarrow> 32 word \<Rightarrow> iq_pair_raw list \<Rightarrow> iq_pair_raw list \<Rightarrow> 32 word \<Rightarrow> 32 word
   \<Rightarrow> 64 word option" where
  "g2calc_real_part_loop t dest samp_num D1 D2 tau shift =
     (if t < unat samp_num then
        (if unat shift < 64 then
           g2calc_real_part_loop (t + 1)
             (dest + signed_drop_bit (unat shift)
                (g2_real_term (D1 ! t) (D1 ! unat (word_of_nat t + tau))
                   (D2 ! unat (word_of_nat t + tau)) (D2 ! t)))
             samp_num D1 D2 tau shift
         else None)
      else Some dest)"
  by pat_completeness auto
termination
  by (relation "measure (\<lambda>(t, dest, samp_num, D1, D2, tau, shift). unat samp_num - t)") auto

definition g2calc_real_part ::
  "64 word \<Rightarrow> 32 word \<Rightarrow> iq_pair_raw list \<Rightarrow> iq_pair_raw list \<Rightarrow> 32 word \<Rightarrow> 32 word \<Rightarrow> 64 word option" where
  "g2calc_real_part dest samp_num D1 D2 tau shift =
     g2calc_real_part_loop 0 dest samp_num D1 D2 tau shift"

function g2calc_imag_part_loop ::
  "nat \<Rightarrow> 64 word \<Rightarrow> 32 word \<Rightarrow> iq_pair_raw list \<Rightarrow> iq_pair_raw list \<Rightarrow> 32 word \<Rightarrow> 32 word
   \<Rightarrow> 64 word option" where
  "g2calc_imag_part_loop t dest samp_num D1 D2 tau shift =
     (if t < unat samp_num then
        (if unat shift < 64 then
           g2calc_imag_part_loop (t + 1)
             (dest + signed_drop_bit (unat shift)
                (g2_imag_term (D1 ! t) (D1 ! unat (word_of_nat t + tau))
                   (D2 ! unat (word_of_nat t + tau)) (D2 ! t)))
             samp_num D1 D2 tau shift
         else None)
      else Some dest)"
  by pat_completeness auto
termination
  by (relation "measure (\<lambda>(t, dest, samp_num, D1, D2, tau, shift). unat samp_num - t)") auto

definition g2calc_imag_part ::
  "64 word \<Rightarrow> 32 word \<Rightarrow> iq_pair_raw list \<Rightarrow> iq_pair_raw list \<Rightarrow> 32 word \<Rightarrow> 32 word \<Rightarrow> 64 word option" where
  "g2calc_imag_part dest samp_num D1 D2 tau shift =
     g2calc_imag_part_loop 0 dest samp_num D1 D2 tau shift"

text \<open>
  The loop over the lags in \<open>task_entry\<close> of g1\_correlation.c,
  \<open>for (uint32_t tau = 0; tau < tau_max; tau++)\<close>, on a pair of accumulators
  (\<open>g1_result_real\<close>, \<open>g1_result_imag\<close> or the background pair). The parts are generic in
  the two kernels, so that the loop of g2\_correlation.c is the same function. When a
  kernel is undefined, so is the loop.
\<close>

function tau_loop ::
  "(64 word \<Rightarrow> 32 word \<Rightarrow> iq_pair_raw list \<Rightarrow> iq_pair_raw list \<Rightarrow> 32 word \<Rightarrow> 32 word
      \<Rightarrow> 64 word option)
   \<Rightarrow> (64 word \<Rightarrow> 32 word \<Rightarrow> iq_pair_raw list \<Rightarrow> iq_pair_raw list \<Rightarrow> 32 word \<Rightarrow> 32 word
      \<Rightarrow> 64 word option)
   \<Rightarrow> 32 word \<Rightarrow> 32 word \<Rightarrow> 64 word list \<Rightarrow> 64 word list \<Rightarrow> 32 word
   \<Rightarrow> iq_pair_raw list \<Rightarrow> iq_pair_raw list \<Rightarrow> 32 word
   \<Rightarrow> (64 word list \<times> 64 word list) option" where
  "tau_loop real_part imag_part tau tau_max result_real result_imag samp_num D1 D2 shift_result =
     (if tau < tau_max then
        (case real_part (result_real ! unat tau) samp_num D1 D2 tau shift_result of
           None \<Rightarrow> None
         | Some re \<Rightarrow>
            (case imag_part (result_imag ! unat tau) samp_num D1 D2 tau shift_result of
               None \<Rightarrow> None
             | Some im \<Rightarrow>
                tau_loop real_part imag_part (tau + 1) tau_max
                  (result_real[unat tau := re]) (result_imag[unat tau := im])
                  samp_num D1 D2 shift_result))
      else Some (result_real, result_imag))"
  by pat_completeness auto
termination
proof (relation "measure (\<lambda>(real_part, imag_part, tau, tau_max, r). unat tau_max - unat tau)")
  show "wf (measure (\<lambda>(real_part, imag_part, tau, tau_max, r). unat tau_max - unat tau))"
    by simp
next
  fix real_part imag_part :: "64 word \<Rightarrow> 32 word \<Rightarrow> iq_pair_raw list \<Rightarrow> iq_pair_raw list
      \<Rightarrow> 32 word \<Rightarrow> 32 word \<Rightarrow> 64 word option"
  fix tau tau_max :: "32 word" and result_real result_imag x xa :: "64 word list"
  fix samp_num shift_result :: "32 word" and D1 D2 :: "iq_pair_raw list"
  assume lt: "tau < tau_max"
  then have a: "unat tau < unat tau_max" by (simp add: word_less_nat_alt)
  have "unat tau_max < 2 ^ LENGTH(32)" by (rule unsigned_less)
  then have "unat tau + unat (1 :: 32 word) < 2 ^ LENGTH(32)" using a by simp
  then have "unat (tau + 1) = unat tau + unat (1 :: 32 word)" by (simp only: unat_add_lem)
  then have "unat (tau + 1) = Suc (unat tau)" by simp
  with a show "((real_part, imag_part, tau + 1, tau_max, x, xa, samp_num, D1, D2, shift_result),
      (real_part, imag_part, tau, tau_max, result_real, result_imag, samp_num, D1, D2, shift_result))
    \<in> measure (\<lambda>(real_part, imag_part, tau, tau_max, r). unat tau_max - unat tau)"
    by simp
qed

text \<open>
  Modelled from the spec: the recording-module driver \<open>rec_get_result_memory\<close> is not
  part of the sources. By the interface of the recording module
  (\<open>getResultMemory(channel, length)\<close> returns exactly \<open>length\<close> entries) it copies the
  first \<open>len\<close> entries of the module's result memory to the start of the destination
  buffer and leaves the rest of the buffer as it is.
\<close>

definition rec_get_result_memory ::
  "iq_pair_raw list \<Rightarrow> iq_pair_raw list \<Rightarrow> nat \<Rightarrow> iq_pair_raw list" where
  "rec_get_result_memory mem buf len = take len mem @ drop len buf"

text \<open>
  The data of \<open>task_entry\<close> of g1\_correlation.c and g2\_correlation.c that one round of
  the averaging loop works on: the two channel buffers and the four accumulators.
\<close>

record corr_buffers =
  iq_pair_D1 :: "iq_pair_raw list"
  iq_pair_D2 :: "iq_pair_raw list"
  result_real :: "64 word list"
  result_imag :: "64 word list"
  result_ss_real :: "64 word list"
  result_ss_imag :: "64 word list"

text \<open>
  The body of the averaging loop \<open>for (avg = 0; avg < averages; avg++)\<close>, the same in
  both files up to the kernels. \<open>sig\<close> and \<open>bg\<close> are the result memories of recording
  modules 0 and 1 once the sequence started at \<open>pc_start\<close>, respectively at
  \<open>pc_start_ss\<close>, has finished. The signal data are fetched with the full length, the
  background data with \<open>samp_num\<close>. The round is undefined when one of its shifts is.
\<close>

definition average_round ::
  "(64 word \<Rightarrow> 32 word \<Rightarrow> iq_pair_raw list \<Rightarrow> iq_pair_raw list \<Rightarrow> 32 word \<Rightarrow> 32 word
      \<Rightarrow> 64 word option)
   \<Rightarrow> (64 word \<Rightarrow> 32 word \<Rightarrow> iq_pair_raw list \<Rightarrow> iq_pair_raw list \<Rightarrow> 32 word \<Rightarrow> 32 word
      \<Rightarrow> 64 word option)
   \<Rightarrow> nat \<Rightarrow> 32 word \<Rightarrow> 32 word \<Rightarrow> 32 word
   \<Rightarrow> iq_pair_raw list \<times> iq_pair_raw list \<Rightarrow> iq_pair_raw list \<times> iq_pair_raw list
   \<Rightarrow> corr_buffers \<Rightarrow> corr_buffers option" where
  "average_round real_part imag_part SAMPLE_NUM tau_max measure_ss shift_result sig bg b =
     (let samp_num = word_of_nat SAMPLE_NUM - tau_max;
          D1 = rec_get_result_memory (fst sig) (iq_pair_D1 b) SAMPLE_NUM;
          D2 = rec_get_result_memory (snd sig) (iq_pair_D2 b) SAMPLE_NUM
      in case tau_loop real_part imag_part 0 tau_max (result_real b) (result_imag b)
                samp_num D1 D2 shift_result of
           None \<Rightarrow> None
         | Some (re, im) \<Rightarrow>
            (let b = b\<lparr>iq_pair_D1 := D1, iq_pair_D2 := D2, result_real := re, result_imag := im\<rparr>
             in if measure_ss = 0 then Some b
                else
                 (let D1 = rec_get_result_memory (fst bg) (iq_pair_D1 b) (unat samp_num);
                      D2 = rec_get_result_memory (snd bg) (iq_pair_D2 b) (unat samp_num)
                  in case tau_loop real_part imag_part 0 tau_max
                            (result_ss_real b) (result_ss_imag b) samp_num D1 D2 shift_result of
                       None \<Rightarrow> None
                     | Some (re, im) \<Rightarrow>
                        Some (b\<lparr>iq_pair_D1 := D1, iq_pair_D2 := D2,
                                result_ss_real := re, result_ss_imag := im\<rparr>))))"

text \<open>The averaging round of g1\_correlation.c and of g2\_correlation.c.\<close>

definition g1_average_round ::
  "32 word \<Rightarrow> 32 word \<Rightarrow> 32 word
   \<Rightarrow> iq_pair_raw list \<times> iq_pair_raw list \<Rightarrow> iq_pair_raw list \<times> iq_pair_raw list
   \<Rightarrow> corr_buffers \<Rightarrow> corr_buffers option" where
  "g1_average_round = average_round g1calc_real_part g1calc_imag_part G1CALC_SAMPLE_NUM"

definition g2_average_round ::
  "32 word \<Rightarrow> 32 word \<Rightarrow> 32 word
   \<Rightarrow> iq_pair_raw list \<times> iq_pair_raw list \<Rightarrow> iq_pair_raw list \<times> iq_pair_raw list
   \<Rightarrow> corr_buffers \<Rightarrow> corr_buffers option" where
  "g2_average_round = average_round g2calc_real_part g2calc_imag_part G2CALC_SAMPLE_NUM"

section \<open>Calls to the collaborators\<close>

text \<open>
  A task is a single thread of control that calls the RTOS, the sequencer, the recording
  and the storage modules. Its observable behaviour is the list of these calls in
  program order. A data box is named after the variable that holds its pointer and
  the reporting iteration that allocated it; the payload \<open>'d\<close> of a finished box is
  its content. Format strings are written without their line terminators.
\<close>

datatype box = Box string nat

datatype 'd event =
    Xil_printf string "32 word list"
  | Rtos_printf string "32 word list"
  | Rtos_PrintfError string "32 word list"
  | Rtos_ReportError string
  | Rtos_GetDataBox box nat
  | Rtos_FinishDataBox box 'd
  | Rtos_DiscardDataBox box
  | Rtos_SetProgress "32 word"
  | Rtos_EnterCriticalSection
  | Rtos_ExitCriticalSection
  | Cells_create
  | Cells_free
  | Cells_get_count
  | Cells_wait_while_busy
  | Cells_start
  | Cells_is_any_busy
  | Stg_set_bram_control
  | Stg_set_state_config
  | Stg_get_bram_pointer
  | Stg_get_next_address
  | Seq_start_at "32 word"
  | Seq_wait_while_busy
  | Seq_is_busy
  | Rec_wait_while_busy nat
  | Rec_get_result_memory nat nat

text \<open>The calls that report an error, and the calls that publish or drop a data box.\<close>

fun is_error_report :: "'d event \<Rightarrow> bool" where
  "is_error_report (Rtos_PrintfError msg args) = True"
| "is_error_report (Rtos_ReportError msg) = True"
| "is_error_report e = False"

fun is_box_release :: "'d event \<Rightarrow> bool" where
  "is_box_release (Rtos_FinishDataBox b d) = True"
| "is_box_release (Rtos_DiscardDataBox b) = True"
| "is_box_release e = False"

section \<open>The ring-buffer drain tasks\<close>

definition MAX_ADDR :: nat where "MAX_ADDR = 1024"

text \<open>
  Modelled from the spec: the storage module and the producer that fills it are
  hardware. The producer writes the words \<open>ws 0\<close>, \<open>ws 1\<close>, ... one after the other to
  consecutive addresses modulo the capacity \<open>MAX_ADDR\<close>, starting at address \<open>0\<close> after the
  reset by \<open>stg_set_bram_control\<close>. When it has written \<open>W\<close> words the buffer holds
  \<open>hw_bram ws W\<close> and the next-address register holds \<open>hw_next_address W\<close>.
\<close>

definition hw_bram :: "(nat \<Rightarrow> 32 word) \<Rightarrow> nat \<Rightarrow> 32 word list" where
  "hw_bram ws W = foldl (\<lambda>mem k. mem[k mod MAX_ADDR := ws k]) (replicate MAX_ADDR 0) [0..<W]"

definition hw_next_address :: "nat \<Rightarrow> 32 word" where
  "hw_next_address W = word_of_nat (W mod MAX_ADDR)"

text \<open>
  The producer is at \<open>W0\<close> words and every poll of the list finds it further on by
  less than \<open>B\<close> words than the poll before.
\<close>

fun poll_advances :: "nat \<Rightarrow> nat \<Rightarrow> (bool \<times> nat) list \<Rightarrow> bool" where
  "poll_advances B W0 [] = True"
| "poll_advances B W0 ((busy, W) # polls) = (W0 \<le> W \<and> W - W0 < B \<and> poll_advances B W polls)"

text \<open>
  The producer keeps writing while the loop copies. The copies of the loop are numbered
  by the value of \<open>count\<close> when they are executed, and \<open>V c\<close> tells how many words the
  producer has written at the moment of copy number \<open>c\<close>. A copy comes after the
  register read of its pass, which found \<open>W\<close> words written, so it reads the buffer as
  it is after \<open>max W (V c)\<close> writes. Each of the first \<open>W\<close> words is copied before the
  producer overwrites it when \<open>copied_in_time V W\<close> holds.
\<close>

definition copied_in_time :: "(nat \<Rightarrow> nat) \<Rightarrow> nat \<Rightarrow> bool" where
  "copied_in_time V W = list_all (\<lambda>c. V c \<le> c + MAX_ADDR) [0..<W]"

text \<open>
  The variables of the drain loop of quantum\_jumps\_new.c: the data box \<open>states\<close> and
  the cursor \<open>last_addr\<close>, \<open>count\<close>.
\<close>

record drain_state =
  d_states :: "32 word list"
  d_last_addr :: "32 word"
  d_count :: "32 word"

text \<open>
  The cursor has followed the producer up to \<open>W\<close> words: \<open>count\<close> is \<open>W\<close>, \<open>last_addr\<close> is
  the address of the next write, and the first \<open>W\<close> words of the data box of \<open>n\<close> words
  are the first \<open>W\<close> words written, in the order they were written.
\<close>

definition drained :: "(nat \<Rightarrow> 32 word) \<Rightarrow> nat \<Rightarrow> nat \<Rightarrow> drain_state \<Rightarrow> bool" where
  "drained ws n W s =
     (unat (d_count s) = W \<and> d_last_addr s = hw_next_address W \<and>
      length (d_states s) = n \<and> take W (d_states s) = map ws [0..<W])"

text \<open>
  \<open>for (uint32_t i = lo; i < hi; ++i) states[count++] = *(bram + i);\<close> in a pass whose
  register read found \<open>W\<close> words written. A store beyond the end of the data box is
  undefined in C: the result is \<open>None\<close>.
\<close>

function drain_copy ::
  "(nat \<Rightarrow> 32 word) \<Rightarrow> (nat \<Rightarrow> nat) \<Rightarrow> nat \<Rightarrow> nat \<Rightarrow> nat \<Rightarrow> 32 word list \<Rightarrow> 32 word
   \<Rightarrow> (32 word list \<times> 32 word) option" where
  "drain_copy ws V W i hi states count =
     (if i < hi then
        (if unat count < length states
         then drain_copy ws V W (i + 1) hi
                (states[unat count := hw_bram ws (max W (V (unat count))) ! i]) (count + 1)
         else None)
      else Some (states, count))"
  by pat_completeness auto
termination
  by (relation "measure (\<lambda>(ws, V, W, i, hi, states, count). hi - i)") auto

text \<open>
  The body of the \<open>while (busy)\<close> loop from the read of the next-address register on,
  which finds \<open>W\<close> words written: the wrapped part up to \<open>MAX_ADDR\<close> first, then the part
  up to \<open>next_addr\<close>.
\<close>

definition drain_poll ::
  "(nat \<Rightarrow> 32 word) \<Rightarrow> (nat \<Rightarrow> nat) \<Rightarrow> nat \<Rightarrow> drain_state \<Rightarrow> drain_state option" where
  "drain_poll ws V W s =
     (let next_addr = hw_next_address W in
      case (if next_addr < d_last_addr s then
              (case drain_copy ws V W (unat (d_last_addr s)) MAX_ADDR (d_states s) (d_count s) of
                 None \<Rightarrow> None
               | Some (st, c) \<Rightarrow> Some (s\<lparr>d_states := st, d_count := c, d_last_addr := 0\<rparr>))
            else Some s) of
        None \<Rightarrow> None
      | Some s \<Rightarrow>
         (if next_addr > d_last_addr s then
            (case drain_copy ws V W (unat (d_last_addr s)) (unat next_addr)
                    (d_states s) (d_count s) of
               None \<Rightarrow> None
             | Some (st, c) \<Rightarrow> Some (s\<lparr>d_states := st, d_count := c, d_last_addr := next_addr\<rparr>))
          else Some s))"

text \<open>
  The loop \<open>while (busy)\<close>. The run of the hardware is the stream \<open>ws\<close> of the words
  written, the clock \<open>V\<close> of the copies, and a list of polls: for each pass through the
  loop, the value returned by \<open>seq_is_busy\<close> and the number of words the producer has
  written when \<open>stg_get_next_address\<close> is read. When the list ends with the sequencer
  still busy the loop has not returned: \<open>None\<close>. The calls of the loop are appended to
  \<open>tr\<close>.
\<close>

fun drain_loop ::
  "(nat \<Rightarrow> 32 word) \<Rightarrow> (nat \<Rightarrow> nat) \<Rightarrow> (bool \<times> nat) list \<Rightarrow> drain_state \<Rightarrow> 'd event list
   \<Rightarrow> (drain_state \<times> 'd event list) option" where
  "drain_loop ws V [] s tr = None"
| "drain_loop ws V ((busy, W) # polls) s tr =
     (case drain_poll ws V W s of
        None \<Rightarrow> None
      | Some s \<Rightarrow>
         (let tr = tr @ [Seq_is_busy, Stg_get_next_address, Rtos_SetProgress (d_count s * 10)]
          in if busy then drain_loop ws V polls s tr else Some (s, tr)))"

text \<open>
  The end of \<open>task_entry\<close> of quantum\_jumps\_new.c: the report, the error when fewer
  states than requested were collected, and the publication of the data box.
\<close>

definition qjn_report :: "32 word \<Rightarrow> drain_state \<Rightarrow> 32 word list event list" where
  "qjn_report repetitions s =
     [Rtos_printf ''Collected %d states!'' [d_count s * 10]]
     @ (if d_count s * 10 < repetitions
        then [Rtos_PrintfError
                ''Expected %d states, but only collected %d! The remaining states could not been catched in time...''
                [repetitions, d_count s * 10]]
        else [])
     @ [Rtos_FinishDataBox (Box ''states'' 0) (d_states s), Cells_free,
        Xil_printf ''Task finished.'' []]"

text \<open>
  \<open>task_entry\<close> of quantum\_jumps\_new.c: the calls it makes and its return value.
  The task reads \<open>param_list[0]\<close> whatever the number of parameters is; with no
  parameter at all that read is outside the parameter block (\<open>None\<close>).
\<close>

definition qjn_task_entry ::
  "32 word list \<Rightarrow> (nat \<Rightarrow> 32 word) \<Rightarrow> (nat \<Rightarrow> nat) \<Rightarrow> (bool \<times> nat) list
   \<Rightarrow> (32 word list event list \<times> int) option" where
  "qjn_task_entry param_list ws V polls =
     (case param_list of
        [] \<Rightarrow> None
      | repetitions # _ \<Rightarrow>
         (let tr = [Xil_printf ''Start Quantum Jump Collection Task'' [],
                    Cells_create,
                    Xil_printf ''Expect to collect %d states.'' [repetitions],
                    Cells_wait_while_busy,
                    Rtos_GetDataBox (Box ''states'' 0) (4 * unat (repetitions div 10))];
              states = replicate (unat (repetitions div 10)) 0;
              tr = tr @ [Stg_set_bram_control, Stg_set_state_config, Stg_get_bram_pointer];
              last_addr = 0;
              count = 0;
              tr = tr @ [Seq_start_at 0]
          in case drain_loop ws V polls
                    \<lparr>d_states = states, d_last_addr = last_addr, d_count = count\<rparr> tr of
               None \<Rightarrow> None
             | Some (s, tr) \<Rightarrow> Some (tr @ qjn_report repetitions s, 0)))"

text \<open>
  The drain loop of quantum\_jumps\_multi.c: in every pass the inner loop
  \<open>for (c = 0; c < cell_num; c++)\<close> does for each cell what the loop above does for one.
  The cells are given with their producers and the clocks of their copies; a poll holds
  the value returned by \<open>cells_is_any_busy\<close> and, for each cell, the number of words
  written when its next-address register is read. The lists have one entry per cell
  (\<open>None\<close> otherwise).
\<close>

fun multi_drain_cells ::
  "(nat \<Rightarrow> 32 word) list \<Rightarrow> (nat \<Rightarrow> nat) list \<Rightarrow> nat list \<Rightarrow> drain_state list
   \<Rightarrow> drain_state list option" where
  "multi_drain_cells [] [] [] [] = Some []"
| "multi_drain_cells (ws # wss) (V # Vs) (W # Ws) (s # ss) =
     (case drain_poll ws V W s of
        None \<Rightarrow> None
      | Some s \<Rightarrow>
         (case multi_drain_cells wss Vs Ws ss of
            None \<Rightarrow> None
          | Some ss \<Rightarrow> Some (s # ss)))"
| "multi_drain_cells wss Vs Ws ss = None"

fun multi_drain_loop ::
  "(nat \<Rightarrow> 32 word) list \<Rightarrow> (nat \<Rightarrow> nat) list \<Rightarrow> (bool \<times> nat list) list \<Rightarrow> drain_state list
   \<Rightarrow> drain_state list option" where
  "multi_drain_loop wss Vs [] ss = None"
| "multi_drain_loop wss Vs ((busy, Ws) # polls) ss =
     (case multi_drain_cells wss Vs Ws ss of
        None \<Rightarrow> None
      | Some ss \<Rightarrow> if busy then multi_drain_loop wss Vs polls ss else Some ss)"

text \<open>The polls as one cell sees them.\<close>

definition cell_polls :: "nat \<Rightarrow> (bool \<times> nat list) list \<Rightarrow> (bool \<times> nat) list" where
  "cell_polls c polls = map (\<lambda>(busy, Ws). (busy, Ws ! c)) polls"

section \<open>The correlation tasks\<close>

text \<open>
  The calls of the correlation tasks do not depend on the samples: the kernels
  (\<open>calc_g1\<close>, \<open>calc_g2\<close>, \<open>g1calc_real_part\<close>, ...) call nothing. The traces below carry no
  box content (\<open>unit event\<close>); what the boxes hold is the subject of the sections
  above. The loop counters \<open>its\<close> and \<open>avg\<close> are compared as unsigned 32-bit values with
  \<open>iterations\<close> and \<open>averages\<close>, so the loops run \<open>unat iterations\<close> and \<open>unat averages\<close>
  times.
\<close>

text \<open>One acquisition: start the sequencer at \<open>pc\<close>, wait, fetch \<open>n\<close> samples of both
  recording modules.\<close>

definition corr_acquire :: "32 word \<Rightarrow> nat \<Rightarrow> unit event list" where
  "corr_acquire pc n =
     [Seq_start_at pc, Seq_wait_while_busy, Rec_wait_while_busy 0, Rec_wait_while_busy 1,
      Rec_get_result_memory 0 n, Rec_get_result_memory 1 n]"

text \<open>
  The body of the loop over \<open>avg\<close> in g1\_correlation\_conv.c and g2\_correlation\_conv.c
  (the two differ in the kernel only): the signal round and, unless
  \<open>continue\<close> skips it, the background round.
\<close>

definition conv_average ::
  "32 word \<Rightarrow> 32 word \<Rightarrow> 32 word \<Rightarrow> 32 word \<Rightarrow> 32 word \<Rightarrow> 32 word \<Rightarrow> unit event list" where
  "conv_average averages pc_start pc_start_ss measure_ss its avg =
     [Rtos_SetProgress (avg + its * averages)]
     @ corr_acquire pc_start N_WAVE
     @ (if measure_ss = 0 then [] else corr_acquire pc_start_ss N_WAVE)"

text \<open>The body of the loop over \<open>its\<close> in g1\_correlation\_conv.c.\<close>

definition g1conv_iteration ::
  "32 word \<Rightarrow> 32 word \<Rightarrow> 32 word \<Rightarrow> 32 word \<Rightarrow> nat \<Rightarrow> unit event list" where
  "g1conv_iteration averages pc_start pc_start_ss measure_ss its =
     [Rtos_GetDataBox (Box ''g1_result_real'' its) (N_WAVE * 8),
      Rtos_GetDataBox (Box ''g1_result_imag'' its) (N_WAVE * 8)]
     @ (if measure_ss \<noteq> 0
        then [Rtos_GetDataBox (Box ''g1_result_ss_real'' its) (N_WAVE * 8),
              Rtos_GetDataBox (Box ''g1_result_ss_imag'' its) (N_WAVE * 8)]
        else [])
     @ [Seq_wait_while_busy]
     @ concat (map (\<lambda>avg. conv_average averages pc_start pc_start_ss measure_ss (word_of_nat its) (word_of_nat avg))
                 [0..<unat averages])
     @ [Rtos_SetProgress ((word_of_nat its + 1) * averages),
        Rtos_EnterCriticalSection,
        Rtos_FinishDataBox (Box ''g1_result_real'' its) (),
        Rtos_FinishDataBox (Box ''g1_result_imag'' its) ()]
     @ (if measure_ss \<noteq> 0
        then [Rtos_FinishDataBox (Box ''g1_result_ss_real'' its) (),
              Rtos_FinishDataBox (Box ''g1_result_ss_imag'' its) ()]
        else [])
     @ [Rtos_ExitCriticalSection]"

text \<open>\<open>task_entry\<close> of g1\_correlation\_conv.c: its calls and its return value.\<close>

definition g1conv_task_entry :: "32 word list \<Rightarrow> unit event list \<times> int" where
  "g1conv_task_entry param_list =
     (let param_count = length param_list in
      if param_count \<noteq> 5
      then ([Rtos_PrintfError
               ''Please provide exactly 5 parameter values for the task (%d given).''
               [word_of_nat param_count]], - 1)
      else
        (let averages = param_list ! 0;
             iterations = param_list ! 1;
             pc_start = param_list ! 2;
             pc_start_ss = param_list ! 3;
             measure_ss = param_list ! 4
         in ([Rtos_GetDataBox (Box ''fft_ref'' 0) (N_WAVE * 2),
              Rtos_GetDataBox (Box ''iq_pair_D1'' 0) (N_WAVE * 4),
              Rtos_GetDataBox (Box ''iq_pair_D2'' 0) (N_WAVE * 4)]
             @ concat (map (g1conv_iteration averages pc_start pc_start_ss measure_ss)
                         [0..<unat iterations])
             @ [Rtos_DiscardDataBox (Box ''iq_pair_D1'' 0),
                Rtos_DiscardDataBox (Box ''iq_pair_D2'' 0)], 0)))"

text \<open>The body of the loop over \<open>its\<close> in g2\_correlation\_conv.c.\<close>

definition g2conv_iteration ::
  "32 word \<Rightarrow> 32 word \<Rightarrow> 32 word \<Rightarrow> 32 word \<Rightarrow> nat \<Rightarrow> unit event list" where
  "g2conv_iteration averages pc_start pc_start_ss measure_ss its =
     [Rtos_GetDataBox (Box ''g2_result_real'' its) (N_WAVE * 8),
      Rtos_GetDataBox (Box ''g2_result_imag'' its) (N_WAVE * 8)]
     @ (if measure_ss \<noteq> 0
        then [Rtos_GetDataBox (Box ''g2_result_ss_real'' its) (N_WAVE * 8),
              Rtos_GetDataBox (Box ''g2_result_ss_imag'' its) (N_WAVE * 8)]
        else [])
     @ [Seq_wait_while_busy]
     @ concat (map (\<lambda>avg. conv_average averages pc_start pc_start_ss measure_ss (word_of_nat its) (word_of_nat avg))
                 [0..<unat averages])
     @ [Rtos_SetProgress ((word_of_nat its + 1) * averages),
        Rtos_EnterCriticalSection,
        Rtos_FinishDataBox (Box ''g2_result_real'' its) (),
        Rtos_FinishDataBox (Box ''g2_result_imag'' its) ()]
     @ (if measure_ss \<noteq> 0
        then [Rtos_FinishDataBox (Box ''g2_result_ss_real'' its) (),
              Rtos_FinishDataBox (Box ''g2_result_ss_imag'' its) ()]
        else [])
     @ [Rtos_ExitCriticalSection]"

text \<open>\<open>task_entry\<close> of g2\_correlation\_conv.c.\<close>

definition g2conv_task_entry :: "32 word list \<Rightarrow> unit event list \<times> int" where
  "g2conv_task_entry param_list =
     (let param_count = length param_list in
      if param_count \<noteq> 5
      then ([Rtos_PrintfError
               ''Please provide exactly 5 parameter values for the task (%d given).''
               [word_of_nat param_count]], - 1)
      else
        (let averages = param_list ! 0;
             iterations = param_list ! 1;
             pc_start = param_list ! 2;
             pc_start_ss = param_list ! 3;
             measure_ss = param_list ! 4
         in ([Rtos_GetDataBox (Box ''fft_ref'' 0) ((N_WAVE - N_WAVE div 4) * 4),
              Rtos_GetDataBox (Box ''iq_pair_D1'' 0) (N_WAVE * 4),
              Rtos_GetDataBox (Box ''iq_pair_D2'' 0) (N_WAVE * 4),
              Rtos_GetDataBox (Box ''signal_mult'' 0) (N_WAVE * 8)]
             @ concat (map (g2conv_iteration averages pc_start pc_start_ss measure_ss)
                         [0..<unat iterations])
             @ [Rtos_DiscardDataBox (Box ''iq_pair_D1'' 0),
                Rtos_DiscardDataBox (Box ''iq_pair_D2'' 0),
                Rtos_DiscardDataBox (Box ''signal_mult'' 0)], 0)))"

text \<open>
  The body of the loop over \<open>avg\<close> in g1\_correlation.c and g2\_correlation.c, with the
  sample count \<open>SAMPLE_NUM\<close> of the task: the background round fetches \<open>samp_num\<close> samples.
\<close>

definition direct_average ::
  "nat \<Rightarrow> 32 word \<Rightarrow> 32 word \<Rightarrow> 32 word \<Rightarrow> 32 word \<Rightarrow> 32 word \<Rightarrow> 32 word \<Rightarrow> 32 word
   \<Rightarrow> unit event list" where
  "direct_average SAMPLE_NUM averages samp_num pc_start pc_start_ss measure_ss its avg =
     [Rtos_SetProgress (avg + its * averages)]
     @ corr_acquire pc_start SAMPLE_NUM
     @ (if measure_ss = 0 then [] else corr_acquire pc_start_ss (unat samp_num))"

text \<open>The body of the loop over \<open>its\<close> in g1\_correlation.c. The size of a result box is
  \<open>tau_max * sizeof(int64_t)\<close> in 32 bits.\<close>

definition g1_iteration ::
  "32 word \<Rightarrow> 32 word \<Rightarrow> 32 word \<Rightarrow> 32 word \<Rightarrow> 32 word \<Rightarrow> 32 word \<Rightarrow> nat \<Rightarrow> unit event list" where
  "g1_iteration averages tau_max samp_num pc_start pc_start_ss measure_ss its =
     [Rtos_GetDataBox (Box ''g1_result_real'' its) (unat (tau_max * 8)),
      Rtos_GetDataBox (Box ''g1_result_imag'' its) (unat (tau_max * 8))]
     @ (if measure_ss \<noteq> 0
        then [Rtos_GetDataBox (Box ''g1_result_ss_real'' its) (unat (tau_max * 8)),
              Rtos_GetDataBox (Box ''g1_result_ss_imag'' its) (unat (tau_max * 8))]
        else [])
     @ [Seq_wait_while_busy]
     @ concat (map (\<lambda>avg. direct_average G1CALC_SAMPLE_NUM averages samp_num pc_start pc_start_ss measure_ss (word_of_nat its) (word_of_nat avg))
                 [0..<unat averages])
     @ [Rtos_SetProgress ((word_of_nat its + 1) * averages),
        Rtos_EnterCriticalSection,
        Rtos_FinishDataBox (Box ''g1_result_real'' its) (),
        Rtos_FinishDataBox (Box ''g1_result_imag'' its) ()]
     @ (if measure_ss \<noteq> 0
        then [Rtos_FinishDataBox (Box ''g1_result_ss_real'' its) (),
              Rtos_FinishDataBox (Box ''g1_result_ss_imag'' its) ()]
        else [])
     @ [Rtos_ExitCriticalSection]"

text \<open>\<open>task_entry\<close> of g1\_correlation.c.\<close>

definition g1_task_entry :: "32 word list \<Rightarrow> unit event list \<times> int" where
  "g1_task_entry param_list =
     (let param_count = length param_list in
      if param_count \<noteq> 7
      then ([Rtos_ReportError ''Please provide exactly 7 parameter values for the task.''], - 1)
      else
        (let averages = param_list ! 0;
             iterations = param_list ! 1;
             tau_max = param_list ! 2;
             pc_start = param_list ! 3;
             pc_start_ss = param_list ! 4;
             measure_ss = param_list ! 5;
             samp_num = word_of_nat G1CALC_SAMPLE_NUM - tau_max
         in ([Rtos_GetDataBox (Box ''iq_pair_D1'' 0) (G1CALC_SAMPLE_NUM * 4),
              Rtos_GetDataBox (Box ''iq_pair_D2'' 0) (G1CALC_SAMPLE_NUM * 4)]
             @ concat (map (g1_iteration averages tau_max samp_num pc_start pc_start_ss measure_ss)
                         [0..<unat iterations])
             @ [Rtos_DiscardDataBox (Box ''iq_pair_D1'' 0),
                Rtos_DiscardDataBox (Box ''iq_pair_D2'' 0)], 0)))"

text \<open>The body of the loop over \<open>its\<close> in g2\_correlation.c.\<close>

definition g2_iteration ::
  "32 word \<Rightarrow> 32 word \<Rightarrow> 32 word \<Rightarrow> 32 word \<Rightarrow> 32 word \<Rightarrow> 32 word \<Rightarrow> nat \<Rightarrow> unit event list" where
  "g2_iteration averages tau_max samp_num pc_start pc_start_ss measure_ss its =
     [Rtos_GetDataBox (Box ''g2_result_real'' its) (unat (tau_max * 8)),
      Rtos_GetDataBox (Box ''g2_result_imag'' its) (unat (tau_max * 8))]
     @ (if measure_ss \<noteq> 0
        then [Rtos_GetDataBox (Box ''g2_result_ss_real'' its) (unat (tau_max * 8)),
              Rtos_GetDataBox (Box ''g2_result_ss_imag'' its) (unat (tau_max * 8))]
        else [])
     @ [Seq_wait_while_busy]
     @ concat (map (\<lambda>avg. direct_average G2CALC_SAMPLE_NUM averages samp_num pc_start pc_start_ss measure_ss (word_of_nat its) (word_of_nat avg))
                 [0..<unat averages])
     @ [Rtos_SetProgress ((word_of_nat its + 1) * averages),
        Rtos_EnterCriticalSection,
        Rtos_FinishDataBox (Box ''g2_result_real'' its) (),
        Rtos_FinishDataBox (Box ''g2_result_imag'' its) ()]
     @ (if measure_ss \<noteq> 0
        then [Rtos_FinishDataBox (Box ''g2_result_ss_real'' its) (),
              Rtos_FinishDataBox (Box ''g2_result_ss_imag'' its) ()]
        else [])
     @ [Rtos_ExitCriticalSection]"

text \<open>\<open>task_entry\<close> of g2\_correlation.c.\<close>

definition g2_task_entry :: "32 word list \<Rightarrow> unit event list \<times> int" where
  "g2_task_entry param_list =
     (let param_count = length param_list in
      if param_count \<noteq> 7
      then ([Rtos_ReportError ''Please provide exactly 7 parameter values for the task.''], - 1)
      else
        (let averages = param_list ! 0;
             iterations = param_list ! 1;
             tau_max = param_list ! 2;
             pc_start = param_list ! 3;
             pc_start_ss = param_list ! 4;
             measure_ss = param_list ! 5;
             samp_num = word_of_nat G2CALC_SAMPLE_NUM - tau_max
         in ([Rtos_GetDataBox (Box ''iq_pair_D1'' 0) (G2CALC_SAMPLE_NUM * 4),
              Rtos_GetDataBox (Box ''iq_pair_D2'' 0) (G2CALC_SAMPLE_NUM * 4)]
             @ concat (map (g2_iteration averages tau_max samp_num pc_start pc_start_ss measure_ss)
                         [0..<unat iterations])
             @ [Rtos_DiscardDataBox (Box ''iq_pair_D1'' 0),
                Rtos_DiscardDataBox (Box ''iq_pair_D2'' 0)], 0)))"

text \<open>
  \<open>task_entry\<close> of correlation\_conv.c: after the check of the parameter count the task
  reports that it has to be adapted and returns \<open>1\<close>; the rest of the function is never
  reached.
\<close>

definition corrconv_task_entry :: "32 word list \<Rightarrow> unit event list \<times> int" where
  "corrconv_task_entry param_list =
     (let param_count = length param_list in
      if param_count \<noteq> 9
      then ([Rtos_PrintfError
               ''Please provide exactly 9 parameter values for the task (%d given).''
               [word_of_nat param_count]], - 1)
      else ([Rtos_PrintfError
               ''This experiment needs to be adapted for new unit cell design first!'' []], 1))"

text \<open>
  The end of the loop over \<open>its\<close> that follows that \<open>return\<close> in correlation\_conv.c (from
  \<open>rtos_SetProgress\<close> to the closing brace), which publishes the eight result boxes of
  the iteration.
\<close>

definition corrconv_publish :: "32 word \<Rightarrow> nat \<Rightarrow> unit event list" where
  "corrconv_publish averages its =
     [Rtos_SetProgress ((word_of_nat its + 1) * averages),
      Rtos_EnterCriticalSection,
      Rtos_FinishDataBox (Box ''g1_result_real'' its) (),
      Rtos_FinishDataBox (Box ''g1_result_imag'' its) (),
      Rtos_FinishDataBox (Box ''g2_result_real'' its) (),
      Rtos_FinishDataBox (Box ''g2_result_imag'' its) (),
      Rtos_FinishDataBox (Box ''g1_result_ss_real'' its) (),
      Rtos_FinishDataBox (Box ''g1_result_ss_imag'' its) (),
      Rtos_FinishDataBox (Box ''g2_result_ss_real'' its) (),
      Rtos_FinishDataBox (Box ''g2_result_ss_imag'' its) (),
      Rtos_ExitCriticalSection]"

text \<open>
  The publication discipline on a sequence of calls, read from left to right with
  \<open>inside\<close> telling whether a critical section is open: a data box is finished only
  inside a critical section, nothing but \<open>rtos_FinishDataBox\<close> is called inside one,
  sections do not nest, and the last one is closed.
\<close>

fun atomic_publication :: "bool \<Rightarrow> 'd event list \<Rightarrow> bool" where
  "atomic_publication inside [] = (\<not> inside)"
| "atomic_publication inside (Rtos_EnterCriticalSection # tr) =
     (\<not> inside \<and> atomic_publication True tr)"
| "atomic_publication inside (Rtos_ExitCriticalSection # tr) =
     (inside \<and> atomic_publication False tr)"
| "atomic_publication inside (Rtos_FinishDataBox b d # tr) =
     (inside \<and> atomic_publication inside tr)"
| "atomic_publication inside (e # tr) = (\<not> inside \<and> atomic_publication inside tr)"

text \<open>The calls that open or close a critical section or finish a data box.\<close>

fun is_publication_call :: "'d event \<Rightarrow> bool" where
  "is_publication_call Rtos_EnterCriticalSection = True"
| "is_publication_call Rtos_ExitCriticalSection = True"
| "is_publication_call (Rtos_FinishDataBox b d) = True"
| "is_publication_call e = False"

text \<open>The result boxes of a reporting iteration: the real and the imaginary
  accumulator, and the background pair when the background is measured.\<close>

definition result_boxes :: "string \<Rightarrow> 32 word \<Rightarrow> nat \<Rightarrow> box list" where
  "result_boxes g measure_ss its =
     [Box (g @ ''_result_real'') its, Box (g @ ''_result_imag'') its]
     @ (if measure_ss \<noteq> 0
        then [Box (g @ ''_result_ss_real'') its, Box (g @ ''_result_ss_imag'') its]
        else [])"

text \<open>One atomic group: the critical section is entered, the boxes are finished one
  after the other, the critical section is left.\<close>

definition publish_group :: "box list \<Rightarrow> unit event list" where
  "publish_group boxes =
     [Rtos_EnterCriticalSection] @ map (\<lambda>b. Rtos_FinishDataBox b ()) boxes
     @ [Rtos_ExitCriticalSection]"

section \<open>Properties of the fixed-point multiply\<close>

lemma g1conv_FIX_MPY_eq: "g1conv_FIX_MPY a b = FIX_MPY_16 a b"
  by (simp add: g1conv_FIX_MPY_def FIX_MPY_16_def)

lemma ucast_of_int_down:
  "LENGTH('b::len) \<le> LENGTH('a::len) \<Longrightarrow> (ucast (word_of_int k :: 'a word) :: 'b word) = word_of_int k"
  by (rule bit_word_eqI) (auto simp add: bit_simps)

lemma sint_of_int_id:
  "- (2 ^ (LENGTH('a::len) - 1)) \<le> k \<Longrightarrow> k < 2 ^ (LENGTH('a) - 1) \<Longrightarrow>
   sint (word_of_int k :: 'a word) = k"
  by (simp add: sint_sbintrunc' signed_take_bit_int_eq_self_iff)

lemma sdrop_of_int:
  assumes "- (2 ^ (LENGTH('a::len) - 1)) \<le> k" "k < 2 ^ (LENGTH('a) - 1)"
  shows "signed_drop_bit n (word_of_int k :: 'a word) = word_of_int (k div 2 ^ n)"
proof -
  have s: "sint (word_of_int k :: 'a word) = k"
    using assms by (rule sint_of_int_id)
  have "sint (signed_drop_bit n (word_of_int k :: 'a word)) = k div 2 ^ n"
    by (simp only: sint_signed_drop_bit_eq drop_bit_eq_div s)
  then have "(word_of_int (sint (signed_drop_bit n (word_of_int k :: 'a word))) :: 'a word)
      = word_of_int (k div 2 ^ n)"
    by simp
  then show ?thesis
    by simp
qed

lemma and1_of_int: "(word_of_int k :: 'a::len word) AND 1 = word_of_int (k mod 2)"
  by (metis and_one_eq of_int_and_eq of_int_1)

lemma prod_bound:
  fixes x y :: int
  assumes "- N \<le> x" "x < N" "- N \<le> y" "y < N" 
  shows "- (N * N) \<le> x * y" and "x * y \<le> N * N"
    and "x \<noteq> - N \<or> y \<noteq> - N \<Longrightarrow> x * y \<le> N * N - N"
proof -
  have b: "\<bar>x\<bar> \<le> N" "\<bar>y\<bar> \<le> N" "0 \<le> N" using assms by auto
  then have "\<bar>x\<bar> * \<bar>y\<bar> \<le> N * N" by (intro mult_mono) auto
  then have 1: "\<bar>x * y\<bar> \<le> N * N" by (simp add: abs_mult)
  then show "- (N * N) \<le> x * y" and "x * y \<le> N * N" by auto
  assume "x \<noteq> - N \<or> y \<noteq> - N"
  then consider "\<bar>x\<bar> \<le> N - 1" | "\<bar>y\<bar> \<le> N - 1" using assms by fastforce
  then have "\<bar>x\<bar> * \<bar>y\<bar> \<le> N * N - N"
  proof cases
    case 1
    then have "\<bar>x\<bar> * \<bar>y\<bar> \<le> (N - 1) * N" using b by (intro mult_mono) auto
    then show ?thesis by (simp add: algebra_simps)
  next
    case 2
    then have "\<bar>x\<bar> * \<bar>y\<bar> \<le> N * (N - 1)" using b by (intro mult_mono) auto
    then show ?thesis by (simp add: algebra_simps)
  qed
  then show "x * y \<le> N * N - N" by (simp add: abs_mult[symmetric])
qed



lemma round16:
  fixes p :: int
  assumes "- 1073741824 \<le> p" "p \<le> 1073709056"
  shows "- 32768 \<le> p div 32768 + (p div 16384) mod 2"
    and "p div 32768 + (p div 16384) mod 2 < 32768"
proof -
  define q where "q = p div 16384"
  have e: "p div 32768 = q div 2"
  proof -
    have "p div 32768 = p div (16384 * 2)" by simp
    also have "\<dots> = p div 16384 div 2" by (rule zdiv_zmult2_eq) simp
    finally show ?thesis by (simp add: q_def)
  qed
  have "(- 1073741824) div 16384 \<le> q" unfolding q_def
    using assms(1) by (rule zdiv_mono1) simp
  then have lo: "- 65536 \<le> q" by simp
  have "q \<le> 1073709056 div 16384" unfolding q_def
    using assms(2) by (rule zdiv_mono1) simp
  then have hi: "q \<le> 65534" by simp
  show "- 32768 \<le> p div 32768 + (p div 16384) mod 2"
    unfolding e q_def[symmetric] using lo by linarith
  show "p div 32768 + (p div 16384) mod 2 < 32768"
  proof -
    have "q mod 2 = 0 \<or> q mod 2 = 1" by auto
    moreover have "q = 2 * (q div 2) + q mod 2" by simp
    ultimately show ?thesis
      unfolding e q_def[symmetric] using hi by (elim disjE) linarith+
  qed
qed

lemma round32:
  fixes p :: int
  assumes "- 4611686018427387904 \<le> p" "p \<le> 4611686016279904256"
  shows "- 2147483648 \<le> p div 2147483648 + (p div 1073741824) mod 2"
    and "p div 2147483648 + (p div 1073741824) mod 2 < 2147483648"
proof -
  define q where "q = p div 1073741824"
  have e: "p div 2147483648 = q div 2"
  proof -
    have "p div 2147483648 = p div (1073741824 * 2)" by simp
    also have "\<dots> = p div 1073741824 div 2" by (rule zdiv_zmult2_eq) simp
    finally show ?thesis by (simp add: q_def)
  qed
  have "(- 4611686018427387904) div 1073741824 \<le> q" unfolding q_def
    using assms(1) by (rule zdiv_mono1) simp
  then have lo: "- 4294967296 \<le> q" by simp
  have "q \<le> 4611686016279904256 div 1073741824" unfolding q_def
    using assms(2) by (rule zdiv_mono1) simp
  then have hi: "q \<le> 4294967294" by simp
  show "- 2147483648 \<le> p div 2147483648 + (p div 1073741824) mod 2"
    unfolding e q_def[symmetric] using lo by linarith
  show "p div 2147483648 + (p div 1073741824) mod 2 < 2147483648"
  proof -
    have "q mod 2 = 0 \<or> q mod 2 = 1" by auto
    moreover have "q = 2 * (q div 2) + q mod 2" by simp
    ultimately show ?thesis
      unfolding e q_def[symmetric] using hi by (elim disjE) linarith+
  qed
qed


lemma FIX_MPY_16_of_int:
  "FIX_MPY_16 a b = word_of_int (sint a * sint b div 32768 + (sint a * sint b div 16384) mod 2)"
proof -
  define p where "p = sint a * sint b"
  define r where "r = (p div 16384) mod 2"
  have ra: "- 32768 \<le> sint a" "sint a < 32768" "- 32768 \<le> sint b" "sint b < 32768"
    using sint_ge[of a] sint_lt[of a] sint_ge[of b] sint_lt[of b] by simp_all
  have pb: "- (32768 * 32768) \<le> p" "p \<le> 32768 * 32768"
    unfolding p_def using prod_bound(1,2)[OF ra] by simp_all
  have m: "(scast a :: 32 word) * scast b = word_of_int p"
    by (simp only: scast_eq p_def wi_hom_mult)
  have c: "signed_drop_bit 14 (word_of_int p :: 32 word) = word_of_int (p div 16384)"
    using sdrop_of_int[of p 14, where 'a=32] pb by simp
  have rb: "0 \<le> r" "r \<le> 1" by (simp_all add: r_def)
  have b': "(ucast ((word_of_int (p div 16384) :: 32 word) AND 1) :: 16 word) = word_of_int r"
    by (simp add: and1_of_int ucast_of_int_down r_def)
  have sb: "(scast (word_of_int r :: 16 word) :: 32 word) = word_of_int r"
    using sint_of_int_id[of r, where 'a=16] rb by (simp only: scast_eq) simp
  have qb: "- 65536 \<le> p div 16384" "p div 16384 \<le> 65536"
    using zdiv_mono1[of "- (32768 * 32768)" p 16384] zdiv_mono1[of p "32768 * 32768" 16384] pb by simp_all
  have h: "signed_drop_bit 1 (word_of_int (p div 16384) :: 32 word) = word_of_int (p div 32768)"
  proof -
    have "p div 32768 = p div (16384 * 2)" by simp
    also have "\<dots> = p div 16384 div 2" by (rule zdiv_zmult2_eq) simp
    finally have e: "p div 16384 div 2 = p div 32768" by simp
    show ?thesis
      using sdrop_of_int[of "p div 16384" 1, where 'a=32] qb by (simp add: e)
  qed
  have "FIX_MPY_16 a b = ucast (word_of_int (p div 32768) + word_of_int r :: 32 word)"
    unfolding FIX_MPY_16_def Let_def m c b' sb h by (rule refl)
  also have "\<dots> = ucast (word_of_int (p div 32768 + r) :: 32 word)"
    by (simp only: wi_hom_add)
  also have "\<dots> = word_of_int (p div 32768 + r)"
    by (rule ucast_of_int_down) simp
  finally show ?thesis by (simp add: p_def r_def)
qed

lemma FIX_MPY_of_int:
  "FIX_MPY a b = word_of_int (sint a * sint b div 2147483648 + (sint a * sint b div 1073741824) mod 2)"
proof -
  define p where "p = sint a * sint b"
  define r where "r = (p div 1073741824) mod 2"
  have ra: "- 2147483648 \<le> sint a" "sint a < 2147483648" "- 2147483648 \<le> sint b" "sint b < 2147483648"
    using sint_ge[of a] sint_lt[of a] sint_ge[of b] sint_lt[of b] by simp_all
  have pb: "- (2147483648 * 2147483648) \<le> p" "p \<le> 2147483648 * 2147483648"
    unfolding p_def using prod_bound(1,2)[OF ra] by simp_all
  have m: "(scast a :: 64 word) * scast b = word_of_int p"
    by (simp only: scast_eq p_def wi_hom_mult)
  have c: "signed_drop_bit 30 (word_of_int p :: 64 word) = word_of_int (p div 1073741824)"
    using sdrop_of_int[of p 30, where 'a=64] pb by simp
  have rb: "0 \<le> r" "r \<le> 1" by (simp_all add: r_def)
  have b': "(ucast ((word_of_int (p div 1073741824) :: 64 word) AND 1) :: 32 word) = word_of_int r"
    by (simp add: and1_of_int ucast_of_int_down r_def)
  have sb: "(scast (word_of_int r :: 32 word) :: 64 word) = word_of_int r"
    using sint_of_int_id[of r, where 'a=32] rb by (simp only: scast_eq) simp
  have qb: "- 4294967296 \<le> p div 1073741824" "p div 1073741824 \<le> 4294967296"
    using zdiv_mono1[of "- (2147483648 * 2147483648)" p 1073741824] zdiv_mono1[of p "2147483648 * 2147483648" 1073741824] pb by simp_all
  have h: "signed_drop_bit 1 (word_of_int (p div 1073741824) :: 64 word) = word_of_int (p div 2147483648)"
  proof -
    have "p div 2147483648 = p div (1073741824 * 2)" by simp
    also have "\<dots> = p div 1073741824 div 2" by (rule zdiv_zmult2_eq) simp
    finally have e: "p div 1073741824 div 2 = p div 2147483648" by simp
    show ?thesis
      using sdrop_of_int[of "p div 1073741824" 1, where 'a=64] qb by (simp add: e)
  qed
  have "FIX_MPY a b = ucast (word_of_int (p div 2147483648) + word_of_int r :: 64 word)"
    unfolding FIX_MPY_def Let_def m c b' sb h by (rule refl)
  also have "\<dots> = ucast (word_of_int (p div 2147483648 + r) :: 64 word)"
    by (simp only: wi_hom_add)
  also have "\<dots> = word_of_int (p div 2147483648 + r)"
    by (rule ucast_of_int_down) simp
  finally show ?thesis by (simp add: p_def r_def)
qed

lemma sint_FIX_MPY_16:
  assumes "a \<noteq> - 32768 \<or> b \<noteq> - 32768"
  shows "sint (FIX_MPY_16 a b) = sint a * sint b div 32768 + (sint a * sint b div 16384) mod 2"
proof -
  have ra: "- 32768 \<le> sint a" "sint a < 32768" "- 32768 \<le> sint b" "sint b < 32768"
    using sint_ge[of a] sint_lt[of a] sint_ge[of b] sint_lt[of b] by simp_all
  have ne: "sint a \<noteq> - 32768 \<or> sint b \<noteq> - 32768"
  proof (rule ccontr)
    assume "\<not> ?thesis"
    then have "word_of_int (sint a) = (word_of_int (- 32768) :: 16 word)"
      and "word_of_int (sint b) = (word_of_int (- 32768) :: 16 word)"
      by simp_all
    then have "a = - 32768 \<and> b = - 32768" by simp
    with assms show False by simp
  qed
  have pb: "- 1073741824 \<le> sint a * sint b" "sint a * sint b \<le> 1073709056"
    using prod_bound(1)[OF ra] prod_bound(3)[OF ra ne] by simp_all
  show ?thesis
    unfolding FIX_MPY_16_of_int
    using round16[OF pb] by (intro sint_of_int_id) simp_all
qed

lemma sint_FIX_MPY:
  assumes "a \<noteq> - 2147483648 \<or> b \<noteq> - 2147483648"
  shows "sint (FIX_MPY a b) =
         sint a * sint b div 2147483648 + (sint a * sint b div 1073741824) mod 2"
proof -
  have ra: "- 2147483648 \<le> sint a" "sint a < 2147483648"
    "- 2147483648 \<le> sint b" "sint b < 2147483648"
    using sint_ge[of a] sint_lt[of a] sint_ge[of b] sint_lt[of b] by simp_all
  have ne: "sint a \<noteq> - 2147483648 \<or> sint b \<noteq> - 2147483648"
  proof (rule ccontr)
    assume "\<not> ?thesis"
    then have "word_of_int (sint a) = (word_of_int (- 2147483648) :: 32 word)"
      and "word_of_int (sint b) = (word_of_int (- 2147483648) :: 32 word)"
      by simp_all
    then have "a = - 2147483648 \<and> b = - 2147483648" by simp
    with assms show False by simp
  qed
  have pb: "- 4611686018427387904 \<le> sint a * sint b"
    "sint a * sint b \<le> 4611686016279904256"
    using prod_bound(1)[OF ra] prod_bound(3)[OF ra ne] by simp_all
  show ?thesis
    unfolding FIX_MPY_of_int
    using round32[OF pb] by (intro sint_of_int_id) simp_all
qed

text \<open>The accepted edge case: the most negative value squared wraps around.\<close>

lemma FIX_MPY_16_most_negative: "sint (FIX_MPY_16 (- 32768) (- 32768)) = - 32768"
  by (simp add: FIX_MPY_16_of_int)

lemma FIX_MPY_most_negative: "sint (FIX_MPY (- 2147483648) (- 2147483648)) = - 2147483648"
  by (simp add: FIX_MPY_of_int)

text \<open>
  Claim C8. For all signed operands other than the most negative value squared, the
  fixed-point multiply returns, in exact integer arithmetic,
  \<open>((a*b) >> 15) + (((a*b) >> 14) & 1)\<close> for the 16-bit variants (\<open>FIX_MPY_16\<close> of
  correlation\_conv.c and \<open>FIX_MPY\<close> of g1\_correlation\_conv.c) and
  \<open>((a*b) >> 31) + (((a*b) >> 30) & 1)\<close> for the 32-bit variant, that is the
  double-width product scaled down and rounded with the bit just below the truncation
  point; and \<open>FIX_MPY_16(0x7fff, 0x7fff)\<close> is within one unit of \<open>0x7fff\<close>.
\<close>

theorem FIX_MPY_round_to_nearest:
  fixes a b :: "16 word" and x y :: "32 word"
  shows "(\<not> (a = - 32768 \<and> b = - 32768) \<longrightarrow>
            sint (FIX_MPY_16 a b)
              = drop_bit 15 (sint a * sint b) + (drop_bit 14 (sint a * sint b) AND 1)
          \<and> sint (g1conv_FIX_MPY a b)
              = drop_bit 15 (sint a * sint b) + (drop_bit 14 (sint a * sint b) AND 1))
       \<and> (\<not> (x = - 2147483648 \<and> y = - 2147483648) \<longrightarrow>
            sint (FIX_MPY x y)
              = drop_bit 31 (sint x * sint y) + (drop_bit 30 (sint x * sint y) AND 1))
       \<and> \<bar>sint (FIX_MPY_16 0x7fff 0x7fff) - 0x7fff\<bar> \<le> 1"
proof (intro conjI impI)
  assume "\<not> (a = - 32768 \<and> b = - 32768)"
  then have h: "a \<noteq> - 32768 \<or> b \<noteq> - 32768" by simp
  show "sint (FIX_MPY_16 a b)
      = drop_bit 15 (sint a * sint b) + (drop_bit 14 (sint a * sint b) AND 1)"
    by (simp add: sint_FIX_MPY_16[OF h] drop_bit_eq_div and_one_eq)
  then show "sint (g1conv_FIX_MPY a b)
      = drop_bit 15 (sint a * sint b) + (drop_bit 14 (sint a * sint b) AND 1)"
    by (simp only: g1conv_FIX_MPY_eq)
next
  assume "\<not> (x = - 2147483648 \<and> y = - 2147483648)"
  then have h: "x \<noteq> - 2147483648 \<or> y \<noteq> - 2147483648" by simp
  show "sint (FIX_MPY x y)
      = drop_bit 31 (sint x * sint y) + (drop_bit 30 (sint x * sint y) AND 1)"
    by (simp add: sint_FIX_MPY[OF h] drop_bit_eq_div and_one_eq)
next
  show "\<bar>sint (FIX_MPY_16 0x7fff 0x7fff) - 0x7fff\<bar> \<le> 1"
    by (simp add: FIX_MPY_16_of_int)
qed

theorem FIX_MPY_round_to_nearest_witness:
  "sint (FIX_MPY_16 0x7fff 0x7fff) = 32766
   \<and> sint (g1conv_FIX_MPY (- 3) 8192) = - 1
   \<and> sint (FIX_MPY 0x7fffffff 0x7fffffff) = 2147483646"
  using FIX_MPY_round_to_nearest[of "0x7fff" "0x7fff" "0x7fffffff" "0x7fffffff"]
    FIX_MPY_round_to_nearest[of "- 3" "8192" 0 0]
  by (simp add: drop_bit_eq_div and_one_eq)
section \<open>Properties of the FFT\<close>

declare fft_halve.simps [simp del] fft_reorder.simps [simp del] fft_z_loop.simps [simp del]
  fft_m_loop.simps [simp del] fft_stage_loop.simps [simp del]

lemma fft_halve_ok:
  "0 \<le> l \<Longrightarrow> 0 \<le> mr \<Longrightarrow> mr \<le> nn \<Longrightarrow>
   \<exists>l'. fft_halve nn mr l = Some l' \<and> 0 \<le> l' \<and> mr + l' \<le> nn"
proof (induction nn mr l rule: fft_halve.induct)
  case (1 nn mr l)
  let ?l' = "drop_bit 1 l"
  have nonneg: "0 \<le> ?l'" using "1.prems"(1) by (simp add: drop_bit_eq_div)
  show ?case
  proof (cases "mr + ?l' > nn")
    case False
    then show ?thesis using nonneg by (subst fft_halve.simps) (simp add: Let_def)
  next
    case True
    then have "?l' \<noteq> 0" using "1.prems" by auto
    then have ne: "?l' \<noteq> l" using "1.prems"(1) by (auto simp: drop_bit_eq_div)
    from "1.IH"[OF refl True ne nonneg "1.prems"(2,3)]
    show ?thesis using True ne by (subst fft_halve.simps) (simp add: Let_def)
  qed
qed

lemma fft_reorder_inv:
  assumes swap: "\<And>g a b. I g \<Longrightarrow> a < N \<Longrightarrow> b < N \<Longrightarrow> I (fft_swap g a b)"
  shows "I f \<Longrightarrow> 0 \<le> n \<Longrightarrow> 0 \<le> m \<Longrightarrow> 0 \<le> mr \<Longrightarrow> mr \<le> nn \<Longrightarrow> nn < int N \<Longrightarrow>
         \<exists>f'. fft_reorder n nn m mr f = Some f' \<and> I f'"
proof (induction n nn m mr f rule: fft_reorder.induct)
  case (1 n nn m mr f)
  show ?case
  proof (cases "m \<le> nn")
    case False
    then show ?thesis using "1.prems"(1) by (subst fft_reorder.simps) simp
  next
    case True
    from fft_halve_ok[OF "1.prems"(2) "1.prems"(4) "1.prems"(5)]
    obtain l where l: "fft_halve nn mr n = Some l" "0 \<le> l" "mr + l \<le> nn" by blast
    define mr' where "mr' = (mr AND (l - 1)) + l"
    have a0: "0 \<le> mr AND (l - 1)" using "1.prems"(4) by simp
    have a1: "mr AND (l - 1) \<le> mr" using "1.prems"(4) by (rule AND_upper1)
    have mr'0: "0 \<le> mr'" and mr'n: "mr' \<le> nn"
      using a0 a1 l by (simp_all add: mr'_def)
    show ?thesis
    proof (cases "mr' \<le> m")
      case le: True
      from "1.IH"(1)[OF True l(1) mr'_def le "1.prems"(1,2) _ mr'0 mr'n "1.prems"(6)] "1.prems"(3)
      obtain f' where "fft_reorder n nn (m + 1) mr' f = Some f'" "I f'" by auto
      then show ?thesis using True l(1) le
        by (subst fft_reorder.simps) (simp add: Let_def mr'_def)
    next
      case gt: False
      have "I (fft_swap f (nat m) (nat mr'))"
        using "1.prems"(1) True mr'n "1.prems"(3) mr'0 "1.prems"(6) by (intro swap) auto
      from "1.IH"(2)[OF True l(1) mr'_def gt this "1.prems"(2) _ mr'0 mr'n "1.prems"(6)] "1.prems"(3)
      obtain f' where "fft_reorder n nn (m + 1) mr' (fft_swap f (nat m) (nat mr')) = Some f'" "I f'"
        by auto
      then show ?thesis using True l(1) gt
        by (subst fft_reorder.simps) (simp add: Let_def mr'_def)
    qed
  qed
qed

lemma butterfly_index_bound:
  fixes z l n :: nat
  assumes "0 < l" "(2 * l) dvd n" "z < n" "z mod (2 * l) < l"
  shows "z + l < n"
proof -
  obtain q where q: "n = 2 * l * q" using assms(2) by (auto simp: dvd_def)
  have "z div (2 * l) < q"
    using assms(1,3) q by (simp add: div_less_iff_less_mult mult.commute)
  then have "z div (2 * l) + 1 \<le> q" by simp
  then have "2 * l * (z div (2 * l) + 1) \<le> 2 * l * q" by (rule mult_le_mono2)
  moreover have "z = 2 * l * (z div (2 * l)) + z mod (2 * l)" by simp
  ultimately show ?thesis using assms(4) q by (simp add: algebra_simps)
qed

lemma fft_z_loop_inv:
  assumes bf: "\<And>g z. I g \<Longrightarrow> z < n \<Longrightarrow> z + l < n \<Longrightarrow> I (fft_butterfly mpy wr wi z (z + l) g)"
    and l: "0 < l" and zs: "zstep = 2 * l" and d: "zstep dvd n"
  shows "I f \<Longrightarrow> z mod zstep < l \<Longrightarrow> \<exists>f'. fft_z_loop mpy n l zstep wr wi z f = Some f' \<and> I f'"
proof (induction "n - z" arbitrary: z f rule: less_induct)
  case less
  show ?case
  proof (cases "z < n")
    case False
    then show ?thesis using less.prems(1) by (subst fft_z_loop.simps) simp
  next
    case True
    have zl: "z + l < n"
      using butterfly_index_bound[OF l _ True] d less.prems(2) zs by simp
    have I': "I (fft_butterfly mpy wr wi z (z + l) f)"
      using less.prems(1) True zl by (rule bf)
    have "n - (z + zstep) < n - z" using True l zs by simp
    moreover have "(z + zstep) mod zstep < l" using less.prems(2) by simp
    ultimately obtain f' where
      "fft_z_loop mpy n l zstep wr wi (z + zstep) (fft_butterfly mpy wr wi z (z + l) f) = Some f'" "I f'"
      using less.hyps[OF _ I'] by blast
    then show ?thesis using True l zs
      by (subst fft_z_loop.simps) (simp add: Let_def)
  qed
qed

lemma fft_m_loop_inv:
  assumes bf: "\<And>g z jj. I g \<Longrightarrow> z < n \<Longrightarrow> z + l < n \<Longrightarrow> jj < N_WAVE div 2 \<Longrightarrow>
      I (fft_butterfly mpy (signed_drop_bit 1 (ref ! (jj + N_WAVE div 4))) (neg_half (ref ! jj)) z (z + l) g)"
    and l: "0 < l" and zs: "zstep = 2 * l" and d: "zstep dvd n"
    and k: "push_bit (nat k) l \<le> N_WAVE div 2"
  shows "I f \<Longrightarrow> \<exists>f'. fft_m_loop mpy neg_half ref n l k zstep m f = Some f' \<and> I f'"
proof (induction "l - m" arbitrary: m f rule: less_induct)
  case less
  show ?case
  proof (cases "m < l")
    case False
    then show ?thesis using less.prems(1) by (subst fft_m_loop.simps) simp
  next
    case True
    let ?j = "push_bit (nat k) m :: nat"
    have "?j < push_bit (nat k) l" using True by (simp add: push_bit_eq_mult)
    then have j: "?j < N_WAVE div 2" using k by simp
    have "m mod zstep < l" using True zs by simp
    from fft_z_loop_inv[of I n l mpy "signed_drop_bit 1 (ref ! (?j + N_WAVE div 4))"
        "neg_half (ref ! ?j)" zstep f m, OF bf[OF _ _ _ j] l zs d less.prems(1) this]
    obtain f1 where f1: "fft_z_loop mpy n l zstep (signed_drop_bit 1 (ref ! (?j + N_WAVE div 4)))
        (neg_half (ref ! ?j)) m f = Some f1" "I f1" by blast
    have "l - (m + 1) < l - m" using True by simp
    from less.hyps[OF this f1(2)] obtain f' where
      "fft_m_loop mpy neg_half ref n l k zstep (m + 1) f1 = Some f'" "I f'" by blast
    then show ?thesis using True f1(1)
      by (subst fft_m_loop.simps) (simp add: Let_def)
  qed
qed

lemma fft_stage_loop_inv:
  assumes bf: "\<And>g z j jj. I g \<Longrightarrow> z < N_WAVE \<Longrightarrow> j < N_WAVE \<Longrightarrow> jj < N_WAVE div 2 \<Longrightarrow>
      I (fft_butterfly mpy (signed_drop_bit 1 (ref ! (jj + N_WAVE div 4))) (neg_half (ref ! jj)) z j g)"
  shows "I f \<Longrightarrow> l = 2 ^ s \<Longrightarrow> k = 9 - int s \<Longrightarrow> s \<le> 10 \<Longrightarrow>
     \<exists>f'. fft_stage_loop mpy neg_half ref N_WAVE l k f = Some f' \<and> I f'"
proof (induction "10 - s" arbitrary: s l k f)
  case 0
  then have "l = N_WAVE" by (simp add: N_WAVE_def)
  then show ?case using "0.prems"(1) by (subst fft_stage_loop.simps) simp
next
  case (Suc d)
  then have s9: "s \<le> 9" by simp
  have "(2::nat) ^ s \<le> 2 ^ 9" using s9 by (intro power_increasing) simp_all
  then have ln: "l < N_WAVE" and l0: "0 < l" using Suc.prems(2) by (simp_all add: N_WAVE_def)
  have "(2::nat) ^ (s + 1) dvd 2 ^ 10" using s9 by (intro le_imp_power_dvd) simp
  then have dv: "push_bit 1 l dvd N_WAVE"
    using Suc.prems(2) by (simp add: N_WAVE_def push_bit_eq_mult mult.commute)
  have nk: "nat k = 9 - s" using Suc.prems(3) by simp
  have "push_bit (nat k) l = (2::nat) ^ (s + (9 - s))"
    unfolding nk Suc.prems(2) push_bit_eq_mult power_add by (rule refl)
  then have kb: "push_bit (nat k) l \<le> N_WAVE div 2" using s9 by (simp add: N_WAVE_def)
  from fft_m_loop_inv[of I N_WAVE l mpy ref neg_half "push_bit 1 l" k f 0,
      OF bf l0 _ dv kb Suc.prems(1)]
  obtain f1 where f1: "fft_m_loop mpy neg_half ref N_WAVE l k (push_bit 1 l) 0 f = Some f1" "I f1"
    by (auto simp: push_bit_eq_mult)
  have "d = 10 - (s + 1)" using Suc.hyps(2) by simp
  from Suc.hyps(1)[OF this f1(2), of "push_bit 1 l" "k - 1"] Suc.prems(2,3) s9
  obtain f' where "fft_stage_loop mpy neg_half ref N_WAVE (push_bit 1 l) (k - 1) f1 = Some f'" "I f'"
    by (auto simp: push_bit_eq_mult)
  then show ?case using ln l0 f1(1)
    by (subst fft_stage_loop.simps) (simp add: Let_def)
qed

lemma gen_fix_fft_inv:
  assumes "I f"
    and swap: "\<And>g a b. I g \<Longrightarrow> a < N_WAVE \<Longrightarrow> b < N_WAVE \<Longrightarrow> I (fft_swap g a b)"
    and bf: "\<And>g z j jj. I g \<Longrightarrow> z < N_WAVE \<Longrightarrow> j < N_WAVE \<Longrightarrow> jj < N_WAVE div 2 \<Longrightarrow>
      I (fft_butterfly mpy (signed_drop_bit 1 (ref ! (jj + N_WAVE div 4))) (neg_half (ref ! jj)) z j g)"
  shows "\<exists>f'. gen_fix_fft mpy neg_half f ref = Some f' \<and> I f'"
proof -
  have b: "(1023 :: int) < int N_WAVE" by (simp add: N_WAVE_def)
  have "\<exists>f'. fft_reorder 1024 1023 1 0 f = Some f' \<and> I f'"
    by (rule fft_reorder_inv[where N = N_WAVE and I = I, OF swap assms(1) _ _ _ _ b]) simp_all
  then obtain f1 where f1: "fft_reorder 1024 1023 1 0 f = Some f1" "I f1" by blast
  from fft_stage_loop_inv[of I mpy ref neg_half f1 1 0 9, OF bf f1(2)]
  obtain f' where "fft_stage_loop mpy neg_half ref N_WAVE 1 9 f1 = Some f'" "I f'" by auto
  then show ?thesis using f1(1)
    by (simp add: gen_fix_fft_def LOG2_N_WAVE_def N_WAVE_def Let_def)
qed
lemma replicate_update_same [simp]: "(replicate n c)[a := c] = replicate n c"
proof (cases "a < n")
  case True
  then have "(replicate n c)[a := replicate n c ! a] = replicate n c"
    by (intro list_update_id)
  then show ?thesis using True by simp
next
  case False
  then have "length (replicate n c) \<le> a" by simp
  then show ?thesis by (rule list_update_beyond)
qed

lemma fft_swap_replicate:
  "a < n \<Longrightarrow> b < n \<Longrightarrow> fft_swap (replicate n c) a b = replicate n c"
  by (simp add: fft_swap_def Let_def)

lemma fft_swap_length [simp]: "length (fft_swap f a b) = length f"
  by (simp add: fft_swap_def Let_def)

lemma fft_butterfly_length [simp]: "length (fft_butterfly mpy wr wi z j f) = length f"
  by (simp add: fft_butterfly_def Let_def)

lemma fft_butterfly_replicate:
  assumes "z < n" "j < n"
    and "mpy wr (iq_i c) - mpy wi (iq_q c) = 0"
    and "mpy wr (iq_q c) + mpy wi (iq_i c) = 0"
    and "signed_drop_bit 1 (iq_i c) = iq_i c" "signed_drop_bit 1 (iq_q c) = iq_q c"
  shows "fft_butterfly mpy wr wi z j (replicate n c) = replicate n c"
  using assms by (simp add: fft_butterfly_def Let_def)

lemma gen_fix_fft_total:
  assumes "length f = N_WAVE"
  shows "\<exists>f'. gen_fix_fft mpy neg_half f ref = Some f' \<and> length f' = N_WAVE"
  using assms by (rule gen_fix_fft_inv[where I = "\<lambda>g. length g = N_WAVE"]) simp_all

lemma gen_fix_fft_replicate:
  assumes "\<And>jj. jj < N_WAVE div 2 \<Longrightarrow>
      mpy (signed_drop_bit 1 (ref ! (jj + N_WAVE div 4))) (iq_i c)
        - mpy (neg_half (ref ! jj)) (iq_q c) = 0
      \<and> mpy (signed_drop_bit 1 (ref ! (jj + N_WAVE div 4))) (iq_q c)
        + mpy (neg_half (ref ! jj)) (iq_i c) = 0"
    and "signed_drop_bit 1 (iq_i c) = iq_i c" "signed_drop_bit 1 (iq_q c) = iq_q c"
  shows "gen_fix_fft mpy neg_half (replicate N_WAVE c) ref = Some (replicate N_WAVE c)"
proof -
  have "\<exists>f'. gen_fix_fft mpy neg_half (replicate N_WAVE c) ref = Some f'
      \<and> f' = replicate N_WAVE c"
  proof (rule gen_fix_fft_inv[where I = "\<lambda>g. g = replicate N_WAVE c"])
    show "replicate N_WAVE c = replicate N_WAVE c" by (rule refl)
  next
    fix g :: "'a word iq list" and a b
    assume "g = replicate N_WAVE c" "a < N_WAVE" "b < N_WAVE"
    then show "fft_swap g a b = replicate N_WAVE c" by (simp add: fft_swap_replicate)
  next
    fix g :: "'a word iq list" and z j jj
    assume g: "g = replicate N_WAVE c" and b: "z < N_WAVE" "j < N_WAVE" and jj: "jj < N_WAVE div 2"
    show "fft_butterfly mpy (signed_drop_bit 1 (ref ! (jj + N_WAVE div 4)))
        (neg_half (ref ! jj)) z j g = replicate N_WAVE c"
      unfolding g using b assms(1)[OF jj] assms(2,3)
      by (intro fft_butterfly_replicate) blast+
  qed
  then show ?thesis by simp
qed

lemma FIX_MPY_16_zero [simp]: "FIX_MPY_16 w 0 = 0" "FIX_MPY_16 0 w = 0"
  by (simp_all add: FIX_MPY_16_of_int)

lemma FIX_MPY_zero [simp]: "FIX_MPY w 0 = 0" "FIX_MPY 0 w = 0"
  by (simp_all add: FIX_MPY_of_int)

lemma g1conv_FIX_MPY_zero [simp]: "g1conv_FIX_MPY w 0 = 0" "g1conv_FIX_MPY 0 w = 0"
  by (simp_all add: g1conv_FIX_MPY_eq)

lemma g1conv_fix_fft_zero:
  "g1conv_fix_fft (replicate N_WAVE \<lparr>iq_i = 0, iq_q = 0\<rparr>) ref
     = Some (replicate N_WAVE \<lparr>iq_i = 0, iq_q = 0\<rparr>)"
  unfolding g1conv_fix_fft_def by (rule gen_fix_fft_replicate) simp_all

lemma fix_fft_16_zero:
  "fix_fft_16 (replicate N_WAVE \<lparr>iq_i = 0, iq_q = 0\<rparr>) ref
     = Some (replicate N_WAVE \<lparr>iq_i = 0, iq_q = 0\<rparr>)"
  unfolding fix_fft_16_def by (rule gen_fix_fft_replicate) simp_all

lemma fix_fft_zero:
  "fix_fft (replicate N_WAVE \<lparr>iq_i = 0, iq_q = 0\<rparr>) ref
     = Some (replicate N_WAVE \<lparr>iq_i = 0, iq_q = 0\<rparr>)"
  unfolding fix_fft_def by (rule gen_fix_fft_replicate) simp_all


declare g1_acc_loop.simps [simp del] g2_mult_loop.simps [simp del] g2_acc_loop.simps [simp del]

lemma g1_acc_loop_spec:
  "g1_acc_loop bin dr di D1 D2 = (dr', di') \<Longrightarrow>
   length dr' = length dr \<and> length di' = length di
   \<and> (\<forall>k < length dr. dr' ! k =
         (if bin \<le> k \<and> k < N_WAVE
          then dr ! k + (scast (iq_i (D1 ! k)) * scast (iq_i (D2 ! k))
                         + scast (iq_q (D1 ! k)) * scast (iq_q (D2 ! k)))
          else dr ! k))
   \<and> (\<forall>k < length di. di' ! k =
         (if bin \<le> k \<and> k < N_WAVE
          then di ! k + (scast (iq_i (D1 ! k)) * scast (iq_q (D2 ! k))
                         - scast (iq_q (D1 ! k)) * scast (iq_i (D2 ! k)))
          else di ! k))"
proof (induction bin dr di D1 D2 rule: g1_acc_loop.induct)
  case (1 bin dr di D1 D2)
  show ?case
  proof (cases "bin < N_WAVE")
    case False
    then show ?thesis using "1.prems" by (subst (asm) g1_acc_loop.simps) auto
  next
    case True
    define dr1 where "dr1 = dr[bin := dr ! bin + (scast (iq_i (D1 ! bin)) * scast (iq_i (D2 ! bin)) + scast (iq_q (D1 ! bin)) * scast (iq_q (D2 ! bin)))]"
    define di1 where "di1 = di[bin := di ! bin + (scast (iq_i (D1 ! bin)) * scast (iq_q (D2 ! bin)) - scast (iq_q (D1 ! bin)) * scast (iq_i (D2 ! bin)))]"
    have rec: "g1_acc_loop (bin + 1) dr1 di1 D1 D2 = (dr', di')"
      using "1.prems" True by (subst (asm) g1_acc_loop.simps) (simp add: Let_def dr1_def di1_def)
    note IH = "1.IH"[OF True dr1_def di1_def rec]
    have len: "length dr' = length dr" "length di' = length di"
      using IH by (simp_all add: dr1_def di1_def)
    have "dr' ! k = (if bin \<le> k \<and> k < N_WAVE
          then dr ! k + (scast (iq_i (D1 ! k)) * scast (iq_i (D2 ! k)) + scast (iq_q (D1 ! k)) * scast (iq_q (D2 ! k)))
          else dr ! k)" if "k < length dr" for k
    proof (cases "k = bin")
      case True
      then show ?thesis using IH that \<open>bin < N_WAVE\<close> by (simp add: dr1_def)
    next
      case False
      then have "(Suc bin \<le> k) = (bin \<le> k)" by auto
      then show ?thesis using IH that False by (simp add: dr1_def)
    qed
    moreover have "di' ! k = (if bin \<le> k \<and> k < N_WAVE
          then di ! k + (scast (iq_i (D1 ! k)) * scast (iq_q (D2 ! k)) - scast (iq_q (D1 ! k)) * scast (iq_i (D2 ! k)))
          else di ! k)" if "k < length di" for k
    proof (cases "k = bin")
      case True
      then show ?thesis using IH that \<open>bin < N_WAVE\<close> by (simp add: di1_def)
    next
      case False
      then have "(Suc bin \<le> k) = (bin \<le> k)" by auto
      then show ?thesis using IH that False by (simp add: di1_def)
    qed
    ultimately show ?thesis using len by blast
  qed
qed

lemma g2_acc_loop_spec:
  "g2_acc_loop samp dr di sm = (dr', di') \<Longrightarrow>
   length dr' = length dr \<and> length di' = length di
   \<and> (\<forall>k < length dr. dr' ! k =
         (if samp \<le> k \<and> k < N_WAVE
          then dr ! k + (scast (iq_i (sm ! ((N_WAVE - k) mod N_WAVE))) * scast (iq_i (sm ! k))
                         - scast (iq_q (sm ! ((N_WAVE - k) mod N_WAVE))) * scast (iq_q (sm ! k)))
          else dr ! k))
   \<and> (\<forall>k < length di. di' ! k =
         (if samp \<le> k \<and> k < N_WAVE
          then di ! k + (scast (iq_i (sm ! ((N_WAVE - k) mod N_WAVE))) * scast (iq_q (sm ! k))
                         + scast (iq_q (sm ! ((N_WAVE - k) mod N_WAVE))) * scast (iq_i (sm ! k)))
          else di ! k))"
proof (induction samp dr di sm rule: g2_acc_loop.induct)
  case (1 samp dr di sm)
  show ?case
  proof (cases "samp < N_WAVE")
    case False
    then show ?thesis using "1.prems" by (subst (asm) g2_acc_loop.simps) auto
  next
    case True
    define dr1 where "dr1 = dr[samp := dr ! samp + (scast (iq_i (sm ! ((N_WAVE - samp) mod N_WAVE))) * scast (iq_i (sm ! samp)) - scast (iq_q (sm ! ((N_WAVE - samp) mod N_WAVE))) * scast (iq_q (sm ! samp)))]"
    define di1 where "di1 = di[samp := di ! samp + (scast (iq_i (sm ! ((N_WAVE - samp) mod N_WAVE))) * scast (iq_q (sm ! samp)) + scast (iq_q (sm ! ((N_WAVE - samp) mod N_WAVE))) * scast (iq_i (sm ! samp)))]"
    have rec: "g2_acc_loop (samp + 1) dr1 di1 sm = (dr', di')"
      using "1.prems" True by (subst (asm) g2_acc_loop.simps) (simp add: Let_def dr1_def di1_def)
    note IH = "1.IH"[OF True dr1_def di1_def rec]
    have len: "length dr' = length dr" "length di' = length di"
      using IH by (simp_all add: dr1_def di1_def)
    have "dr' ! k = (if samp \<le> k \<and> k < N_WAVE
          then dr ! k + (scast (iq_i (sm ! ((N_WAVE - k) mod N_WAVE))) * scast (iq_i (sm ! k)) - scast (iq_q (sm ! ((N_WAVE - k) mod N_WAVE))) * scast (iq_q (sm ! k)))
          else dr ! k)" if "k < length dr" for k
    proof (cases "k = samp")
      case True
      then show ?thesis using IH that \<open>samp < N_WAVE\<close> by (simp add: dr1_def)
    next
      case False
      then have "(Suc samp \<le> k) = (samp \<le> k)" by auto
      then show ?thesis using IH that False by (simp add: dr1_def)
    qed
    moreover have "di' ! k = (if samp \<le> k \<and> k < N_WAVE
          then di ! k + (scast (iq_i (sm ! ((N_WAVE - k) mod N_WAVE))) * scast (iq_q (sm ! k)) + scast (iq_q (sm ! ((N_WAVE - k) mod N_WAVE))) * scast (iq_i (sm ! k)))
          else di ! k)" if "k < length di" for k
    proof (cases "k = samp")
      case True
      then show ?thesis using IH that \<open>samp < N_WAVE\<close> by (simp add: di1_def)
    next
      case False
      then have "(Suc samp \<le> k) = (samp \<le> k)" by auto
      then show ?thesis using IH that False by (simp add: di1_def)
    qed
    ultimately show ?thesis using len by blast
  qed
qed

lemma g2_mult_loop_spec:
  "length (g2_mult_loop samp sm D1 D2) = length sm
   \<and> (\<forall>k < length sm. g2_mult_loop samp sm D1 D2 ! k =
         (if samp \<le> k \<and> k < N_WAVE
          then (sm ! k)\<lparr>iq_i := scast (iq_i (D1 ! k)) * scast (iq_i (D2 ! k))
                               + scast (iq_q (D1 ! k)) * scast (iq_q (D2 ! k)),
                        iq_q := scast (iq_i (D1 ! k)) * scast (iq_q (D2 ! k))
                               - scast (iq_q (D1 ! k)) * scast (iq_i (D2 ! k))\<rparr>
          else sm ! k))"
proof (induction samp sm D1 D2 rule: g2_mult_loop.induct)
  case (1 samp sm D1 D2)
  show ?case
  proof (cases "samp < N_WAVE")
    case False
    then show ?thesis by (subst (1 2) g2_mult_loop.simps) auto
  next
    case True
    define sm1 where "sm1 = sm[samp := (sm ! samp)\<lparr>iq_i :=
                scast (iq_i (D1 ! samp)) * scast (iq_i (D2 ! samp))
                + scast (iq_q (D1 ! samp)) * scast (iq_q (D2 ! samp))\<rparr>]"
    define sm2 where "sm2 = sm1[samp := (sm1 ! samp)\<lparr>iq_q :=
                scast (iq_i (D1 ! samp)) * scast (iq_q (D2 ! samp))
                - scast (iq_q (D1 ! samp)) * scast (iq_i (D2 ! samp))\<rparr>]"
    have rec: "g2_mult_loop samp sm D1 D2 = g2_mult_loop (samp + 1) sm2 D1 D2"
      using True by (subst g2_mult_loop.simps) (simp add: Let_def sm1_def sm2_def)
    note IH = "1.IH"[OF True sm1_def sm2_def]
    have len: "length (g2_mult_loop samp sm D1 D2) = length sm"
      using IH by (simp add: rec sm1_def sm2_def)
    have "g2_mult_loop samp sm D1 D2 ! k =
         (if samp \<le> k \<and> k < N_WAVE
          then (sm ! k)\<lparr>iq_i := scast (iq_i (D1 ! k)) * scast (iq_i (D2 ! k))
                               + scast (iq_q (D1 ! k)) * scast (iq_q (D2 ! k)),
                        iq_q := scast (iq_i (D1 ! k)) * scast (iq_q (D2 ! k))
                               - scast (iq_q (D1 ! k)) * scast (iq_i (D2 ! k))\<rparr>
          else sm ! k)" if "k < length sm" for k
    proof (cases "k = samp")
      case True
      then show ?thesis using IH that \<open>samp < N_WAVE\<close> by (simp add: rec sm1_def sm2_def)
    next
      case False
      then have "(Suc samp \<le> k) = (samp \<le> k)" by auto
      then show ?thesis using IH that False by (simp add: rec sm1_def sm2_def)
    qed
    then show ?thesis using len by blast
  qed
qed

lemma scast_prod_add:
  "(scast a * scast b + scast c * scast d :: 'b::len word)
     = word_of_int (sint a * sint b + sint c * sint d)"
  by (simp only: scast_eq wi_hom_mult wi_hom_add)

lemma scast_prod_sub:
  "(scast a * scast b - scast c * scast d :: 'b::len word)
     = word_of_int (sint a * sint b - sint c * sint d)"
  by (simp only: scast_eq wi_hom_mult wi_hom_sub)

lemma calc_g1_generic:
  assumes fft: "\<And>f. length f = N_WAVE \<Longrightarrow> \<exists>f'. fft f ref = Some f' \<and> length f' = N_WAVE"
    and calc: "\<And>dr di D1 D2. calc dr di D1 D2 ref =
       (case fft D1 ref of None \<Rightarrow> None
        | Some D1 \<Rightarrow> (case fft D2 ref of None \<Rightarrow> None
           | Some D2 \<Rightarrow> (let (dr, di) = g1_acc_loop 0 dr di D1 D2 in Some (dr, di, D1, D2))))"
    and len: "length D1 = N_WAVE" "length D2 = N_WAVE"
  shows "\<exists>D1' D2' dr' di'.
      fft D1 ref = Some D1' \<and> fft D2 ref = Some D2'
      \<and> calc dest_real dest_imag D1 D2 ref = Some (dr', di', D1', D2')
      \<and> length dr' = length dest_real \<and> length di' = length dest_imag
      \<and> (\<forall>k < length dest_real. dr' ! k =
            (if k < N_WAVE
             then dest_real ! k + word_of_int (sint (iq_i (D1' ! k)) * sint (iq_i (D2' ! k))
                                       + sint (iq_q (D1' ! k)) * sint (iq_q (D2' ! k)))
             else dest_real ! k))
      \<and> (\<forall>k < length dest_imag. di' ! k =
            (if k < N_WAVE
             then dest_imag ! k + word_of_int (sint (iq_i (D1' ! k)) * sint (iq_q (D2' ! k))
                                       - sint (iq_q (D1' ! k)) * sint (iq_i (D2' ! k)))
             else dest_imag ! k))"
proof -
  obtain D1' where D1': "fft D1 ref = Some D1'" using fft[OF len(1)] by blast
  obtain D2' where D2': "fft D2 ref = Some D2'" using fft[OF len(2)] by blast
  obtain dr' di' where acc: "g1_acc_loop 0 dest_real dest_imag D1' D2' = (dr', di')"
    by (cases "g1_acc_loop 0 dest_real dest_imag D1' D2'") blast
  have c: "calc dest_real dest_imag D1 D2 ref = Some (dr', di', D1', D2')"
    by (simp add: calc D1' D2' acc)
  note spec = g1_acc_loop_spec[OF acc, unfolded scast_prod_add scast_prod_sub]
  from spec D1' D2' c show ?thesis
    by simp
qed

lemma g1conv_fix_fft_total:
  "length f = N_WAVE \<Longrightarrow> \<exists>f'. g1conv_fix_fft f ref = Some f' \<and> length f' = N_WAVE"
  unfolding g1conv_fix_fft_def by (rule gen_fix_fft_total)

lemma fix_fft_16_total:
  "length f = N_WAVE \<Longrightarrow> \<exists>f'. fix_fft_16 f ref = Some f' \<and> length f' = N_WAVE"
  unfolding fix_fft_16_def by (rule gen_fix_fft_total)

lemma fix_fft_total:
  "length f = N_WAVE \<Longrightarrow> \<exists>f'. fix_fft f ref = Some f' \<and> length f' = N_WAVE"
  unfolding fix_fft_def by (rule gen_fix_fft_total)

lemma g1_acc_loop_replicate:
  assumes "bin = 0"
  shows "g1_acc_loop bin (replicate N_WAVE r) (replicate N_WAVE s) (replicate N_WAVE c) (replicate N_WAVE d)
   = (replicate N_WAVE (r + (scast (iq_i c) * scast (iq_i d) + scast (iq_q c) * scast (iq_q d))),
      replicate N_WAVE (s + (scast (iq_i c) * scast (iq_q d) - scast (iq_q c) * scast (iq_i d))))"
proof -
  obtain dr' di' where acc: "g1_acc_loop bin (replicate N_WAVE r) (replicate N_WAVE s)
      (replicate N_WAVE c) (replicate N_WAVE d) = (dr', di')"
    by (cases "g1_acc_loop bin (replicate N_WAVE r) (replicate N_WAVE s)
      (replicate N_WAVE c) (replicate N_WAVE d)") blast
  note spec = g1_acc_loop_spec[OF acc]
  have "dr' = replicate N_WAVE (r + (scast (iq_i c) * scast (iq_i d) + scast (iq_q c) * scast (iq_q d)))"
    using spec assms by (intro nth_equalityI) simp_all
  moreover have "di' = replicate N_WAVE (s + (scast (iq_i c) * scast (iq_q d) - scast (iq_q c) * scast (iq_i d)))"
    using spec assms by (intro nth_equalityI) simp_all
  ultimately show ?thesis using acc by simp
qed

lemma neg_half_16_zero [simp]: "neg_half_16 0 = 0"
  by (simp add: neg_half_16_def)

lemma neg_half_32_zero [simp]: "neg_half_32 0 = 0"
  by (simp add: neg_half_32_def)

lemma gen_fix_fft_zero_ref:
  assumes "mpy 0 (iq_i c) = 0" "mpy 0 (iq_q c) = 0" "neg_half 0 = 0"
    and "signed_drop_bit 1 (iq_i c) = iq_i c" "signed_drop_bit 1 (iq_q c) = iq_q c"
  shows "gen_fix_fft mpy neg_half (replicate N_WAVE c) (replicate (N_WAVE - N_WAVE div 4) 0)
     = Some (replicate N_WAVE c)"
proof (rule gen_fix_fft_replicate)
  fix jj assume "jj < N_WAVE div 2"
  then have "replicate (N_WAVE - N_WAVE div 4) (0 :: 'a word) ! (jj + N_WAVE div 4) = 0"
    "replicate (N_WAVE - N_WAVE div 4) (0 :: 'a word) ! jj = 0"
    by (simp_all add: N_WAVE_def)
  then show "mpy (signed_drop_bit 1 (replicate (N_WAVE - N_WAVE div 4) 0 ! (jj + N_WAVE div 4))) (iq_i c)
        - mpy (neg_half (replicate (N_WAVE - N_WAVE div 4) 0 ! jj)) (iq_q c) = 0
      \<and> mpy (signed_drop_bit 1 (replicate (N_WAVE - N_WAVE div 4) 0 ! (jj + N_WAVE div 4))) (iq_q c)
        + mpy (neg_half (replicate (N_WAVE - N_WAVE div 4) 0 ! jj)) (iq_i c) = 0"
    using assms(1-3) by simp
qed (use assms in simp_all)

text \<open>
  Claim C2, as amended. With both channels of length \<open>N_WAVE\<close>, one call to
  \<open>calc_g1\<close> (of g1\_correlation\_conv.c and of correlation\_conv.c) transforms both
  channels in place and then adds, for every bin \<open>k\<close> below \<open>N_WAVE\<close>, exactly
  \<open>D1[k].i*D2[k].i + D1[k].q*D2[k].q\<close> to the real accumulator and
  \<open>D1[k].i*D2[k].q - D1[k].q*D2[k].i\<close> to the imaginary accumulator (the transformed
  entries, in exact integer arithmetic, added modulo \<open>2^64\<close>); the other accumulator entries
  are unchanged.
\<close>

theorem calc_g1_accumulates:
  assumes "length D1 = N_WAVE" "length D2 = N_WAVE"
  shows "(\<exists>D1' D2' dr' di'.
      g1conv_fix_fft D1 ref = Some D1' \<and> g1conv_fix_fft D2 ref = Some D2'
      \<and> g1conv_calc_g1 dest_real dest_imag D1 D2 ref = Some (dr', di', D1', D2')
      \<and> length dr' = length dest_real \<and> length di' = length dest_imag
      \<and> (\<forall>k < length dest_real. dr' ! k =
            (if k < N_WAVE
             then dest_real ! k + word_of_int (sint (iq_i (D1' ! k)) * sint (iq_i (D2' ! k))
                                       + sint (iq_q (D1' ! k)) * sint (iq_q (D2' ! k)))
             else dest_real ! k))
      \<and> (\<forall>k < length dest_imag. di' ! k =
            (if k < N_WAVE
             then dest_imag ! k + word_of_int (sint (iq_i (D1' ! k)) * sint (iq_q (D2' ! k))
                                       - sint (iq_q (D1' ! k)) * sint (iq_i (D2' ! k)))
             else dest_imag ! k)))
   \<and> (\<exists>D1' D2' dr' di'.
      fix_fft_16 D1 ref = Some D1' \<and> fix_fft_16 D2 ref = Some D2'
      \<and> calc_g1 dest_real dest_imag D1 D2 ref = Some (dr', di', D1', D2')
      \<and> length dr' = length dest_real \<and> length di' = length dest_imag
      \<and> (\<forall>k < length dest_real. dr' ! k =
            (if k < N_WAVE
             then dest_real ! k + word_of_int (sint (iq_i (D1' ! k)) * sint (iq_i (D2' ! k))
                                       + sint (iq_q (D1' ! k)) * sint (iq_q (D2' ! k)))
             else dest_real ! k))
      \<and> (\<forall>k < length dest_imag. di' ! k =
            (if k < N_WAVE
             then dest_imag ! k + word_of_int (sint (iq_i (D1' ! k)) * sint (iq_q (D2' ! k))
                                       - sint (iq_q (D1' ! k)) * sint (iq_i (D2' ! k)))
             else dest_imag ! k)))"
proof (rule conjI)
  show "(\<exists>D1' D2' dr' di'.
      g1conv_fix_fft D1 ref = Some D1' \<and> g1conv_fix_fft D2 ref = Some D2'
      \<and> g1conv_calc_g1 dest_real dest_imag D1 D2 ref = Some (dr', di', D1', D2')
      \<and> length dr' = length dest_real \<and> length di' = length dest_imag
      \<and> (\<forall>k < length dest_real. dr' ! k =
            (if k < N_WAVE
             then dest_real ! k + word_of_int (sint (iq_i (D1' ! k)) * sint (iq_i (D2' ! k))
                                       + sint (iq_q (D1' ! k)) * sint (iq_q (D2' ! k)))
             else dest_real ! k))
      \<and> (\<forall>k < length dest_imag. di' ! k =
            (if k < N_WAVE
             then dest_imag ! k + word_of_int (sint (iq_i (D1' ! k)) * sint (iq_q (D2' ! k))
                                       - sint (iq_q (D1' ! k)) * sint (iq_i (D2' ! k)))
             else dest_imag ! k)))"
  proof (rule calc_g1_generic[where fft = g1conv_fix_fft and calc = g1conv_calc_g1])
    show "\<exists>f'. g1conv_fix_fft f ref = Some f' \<and> length f' = N_WAVE" if "length f = N_WAVE" for f
      using that by (rule g1conv_fix_fft_total)
  qed (simp_all add: g1conv_calc_g1_def assms)
  show "(\<exists>D1' D2' dr' di'.
      fix_fft_16 D1 ref = Some D1' \<and> fix_fft_16 D2 ref = Some D2'
      \<and> calc_g1 dest_real dest_imag D1 D2 ref = Some (dr', di', D1', D2')
      \<and> length dr' = length dest_real \<and> length di' = length dest_imag
      \<and> (\<forall>k < length dest_real. dr' ! k =
            (if k < N_WAVE
             then dest_real ! k + word_of_int (sint (iq_i (D1' ! k)) * sint (iq_i (D2' ! k))
                                       + sint (iq_q (D1' ! k)) * sint (iq_q (D2' ! k)))
             else dest_real ! k))
      \<and> (\<forall>k < length dest_imag. di' ! k =
            (if k < N_WAVE
             then dest_imag ! k + word_of_int (sint (iq_i (D1' ! k)) * sint (iq_q (D2' ! k))
                                       - sint (iq_q (D1' ! k)) * sint (iq_i (D2' ! k)))
             else dest_imag ! k)))"
  proof (rule calc_g1_generic[where fft = fix_fft_16 and calc = calc_g1])
    show "\<exists>f'. fix_fft_16 f ref = Some f' \<and> length f' = N_WAVE" if "length f = N_WAVE" for f
      using that by (rule fix_fft_16_total)
  qed (simp_all add: calc_g1_def assms)
qed

theorem calc_g1_accumulates_witness:
  "\<exists>D1' D2' dr' di'.
      g1conv_calc_g1 (replicate N_WAVE 7) (replicate N_WAVE 9)
        (replicate N_WAVE \<lparr>iq_i = 0, iq_q = 0\<rparr>) (replicate N_WAVE \<lparr>iq_i = 0, iq_q = 0\<rparr>)
        (replicate 768 0)
        = Some (dr', di', D1', D2')
      \<and> dr' ! 3 = 7 + word_of_int (sint (iq_i (D1' ! 3)) * sint (iq_i (D2' ! 3))
                                    + sint (iq_q (D1' ! 3)) * sint (iq_q (D2' ! 3)))
      \<and> di' ! 3 = 9 + word_of_int (sint (iq_i (D1' ! 3)) * sint (iq_q (D2' ! 3))
                                    - sint (iq_q (D1' ! 3)) * sint (iq_i (D2' ! 3)))"
proof -
  have l: "length (replicate N_WAVE \<lparr>iq_i = 0 :: 16 word, iq_q = 0\<rparr>) = N_WAVE" by simp
  have k: "3 < length (replicate N_WAVE (7 :: 64 word))" "3 < length (replicate N_WAVE (9 :: 64 word))"
    "(3 :: nat) < N_WAVE"
    by (simp_all add: N_WAVE_def)
  from calc_g1_accumulates[OF l l, where dest_real = "replicate N_WAVE 7"
      and dest_imag = "replicate N_WAVE 9" and ref = "replicate 768 0", THEN conjunct1]
  obtain D1' D2' dr' di' where
    c: "g1conv_calc_g1 (replicate N_WAVE 7) (replicate N_WAVE 9)
        (replicate N_WAVE \<lparr>iq_i = 0, iq_q = 0\<rparr>) (replicate N_WAVE \<lparr>iq_i = 0, iq_q = 0\<rparr>)
        (replicate 768 0)
        = Some (dr', di', D1', D2')"
    and r: "\<forall>k < length (replicate N_WAVE (7 :: 64 word)). dr' ! k =
            (if k < N_WAVE
             then replicate N_WAVE 7 ! k + word_of_int (sint (iq_i (D1' ! k)) * sint (iq_i (D2' ! k))
                                       + sint (iq_q (D1' ! k)) * sint (iq_q (D2' ! k)))
             else replicate N_WAVE 7 ! k)"
    and i: "\<forall>k < length (replicate N_WAVE (9 :: 64 word)). di' ! k =
            (if k < N_WAVE
             then replicate N_WAVE 9 ! k + word_of_int (sint (iq_i (D1' ! k)) * sint (iq_q (D2' ! k))
                                       - sint (iq_q (D1' ! k)) * sint (iq_i (D2' ! k)))
             else replicate N_WAVE 9 ! k)"
    by blast
  from r[rule_format, OF k(1)] i[rule_format, OF k(2)] k(3) c show ?thesis
    by (intro exI[of _ D1'] exI[of _ D2'] exI[of _ dr'] exI[of _ di']) simp
qed

text \<open>
  Claim C2 as stated gives the imaginary part the opposite sign,
  \<open>D1[o].q*D2[o].i - D1[o].i*D2[o].q\<close>. With an all-zero reference table the channels
  with all entries \<open>(-1, 0)\<close> and \<open>(0, -1)\<close> are left as they are by the transform, and
  the imaginary accumulator grows by \<open>1\<close> in every bin, not by \<open>-1\<close>.
\<close>

theorem calc_g1_imag_sign_counterexample:
  "g1conv_calc_g1 (replicate N_WAVE 0) (replicate N_WAVE 0)
      (replicate N_WAVE \<lparr>iq_i = - 1, iq_q = 0\<rparr>) (replicate N_WAVE \<lparr>iq_i = 0, iq_q = - 1\<rparr>)
      (replicate (N_WAVE - N_WAVE div 4) 0)
    = Some (replicate N_WAVE 0, replicate N_WAVE 1,
            replicate N_WAVE \<lparr>iq_i = - 1, iq_q = 0\<rparr>, replicate N_WAVE \<lparr>iq_i = 0, iq_q = - 1\<rparr>)
   \<and> (1 :: 64 word) \<noteq> 0 + word_of_int (sint (0 :: 16 word) * sint (0 :: 16 word)
                                        - sint (- 1 :: 16 word) * sint (- 1 :: 16 word))"
proof -
  have a: "g1conv_fix_fft (replicate N_WAVE \<lparr>iq_i = - 1, iq_q = 0\<rparr>)
      (replicate (N_WAVE - N_WAVE div 4) 0) = Some (replicate N_WAVE \<lparr>iq_i = - 1, iq_q = 0\<rparr>)"
    unfolding g1conv_fix_fft_def by (rule gen_fix_fft_zero_ref) simp_all
  have b: "g1conv_fix_fft (replicate N_WAVE \<lparr>iq_i = 0, iq_q = - 1\<rparr>)
      (replicate (N_WAVE - N_WAVE div 4) 0) = Some (replicate N_WAVE \<lparr>iq_i = 0, iq_q = - 1\<rparr>)"
    unfolding g1conv_fix_fft_def by (rule gen_fix_fft_zero_ref) simp_all
  show ?thesis
    by (simp add: g1conv_calc_g1_def a b g1_acc_loop_replicate)
qed

text \<open>
  Claim C9. For every reference table the transform of the all-zero channel is the
  all-zero channel, and so is the transform of that result; this holds for the
  \<open>fix_fft\<close> of g1\_correlation\_conv.c and for the other transforms as well.
\<close>

theorem fix_fft_zero_vector:
  "g1conv_fix_fft (replicate N_WAVE \<lparr>iq_i = 0, iq_q = 0\<rparr>) ref
     = Some (replicate N_WAVE \<lparr>iq_i = 0, iq_q = 0\<rparr>)
   \<and> Option.bind (g1conv_fix_fft (replicate N_WAVE \<lparr>iq_i = 0, iq_q = 0\<rparr>) ref)
        (\<lambda>f. g1conv_fix_fft f ref) = Some (replicate N_WAVE \<lparr>iq_i = 0, iq_q = 0\<rparr>)
   \<and> Option.bind (fix_fft_16 (replicate N_WAVE \<lparr>iq_i = 0, iq_q = 0\<rparr>) ref16)
        (\<lambda>f. fix_fft_16 f ref16) = Some (replicate N_WAVE \<lparr>iq_i = 0, iq_q = 0\<rparr>)
   \<and> Option.bind (fix_fft (replicate N_WAVE \<lparr>iq_i = 0, iq_q = 0\<rparr>) ref32)
        (\<lambda>f. fix_fft f ref32) = Some (replicate N_WAVE \<lparr>iq_i = 0, iq_q = 0\<rparr>)"
  by (simp add: g1conv_fix_fft_zero fix_fft_16_zero fix_fft_zero)

text \<open>
  Claim C3. With channels and scratch array of length \<open>N_WAVE\<close>, one call to \<open>calc_g2\<close>
  forms the product signal \<open>P\<close> with real part \<open>D1[t].i*D2[t].i + D1[t].q*D2[t].q\<close> and
  imaginary part \<open>D1[t].i*D2[t].q - D1[t].q*D2[t].i\<close> (in 32 bits), applies \<open>fix_fft\<close> once
  to \<open>P\<close>, giving \<open>M\<close>, and adds to the accumulators at every index \<open>samp\<close> the complex
  product of \<open>M\<close> at the mirror index \<open>(N_WAVE - samp) mod N_WAVE\<close> and at \<open>samp\<close> (in 64
  bits); at \<open>samp = 0\<close> the mirror index is \<open>0\<close>.
\<close>

theorem calc_g2_product_fft_mirror:
  assumes "length D1 = N_WAVE" "length D2 = N_WAVE" "length signal_mult = N_WAVE"
    and "length dest_real = N_WAVE" "length dest_imag = N_WAVE"
  shows "\<exists>P M dr' di'.
      length P = N_WAVE
      \<and> (\<forall>t < N_WAVE.
            iq_i (P ! t) = word_of_int (sint (iq_i (D1 ! t)) * sint (iq_i (D2 ! t))
                                        + sint (iq_q (D1 ! t)) * sint (iq_q (D2 ! t)))
          \<and> iq_q (P ! t) = word_of_int (sint (iq_i (D1 ! t)) * sint (iq_q (D2 ! t))
                                        - sint (iq_q (D1 ! t)) * sint (iq_i (D2 ! t))))
      \<and> fix_fft P ref = Some M
      \<and> calc_g2 dest_real dest_imag D1 D2 ref signal_mult = Some (dr', di', M)
      \<and> length dr' = N_WAVE \<and> length di' = N_WAVE
      \<and> (\<forall>samp < N_WAVE.
            dr' ! samp = dest_real ! samp +
               word_of_int (sint (iq_i (M ! ((N_WAVE - samp) mod N_WAVE))) * sint (iq_i (M ! samp))
                            - sint (iq_q (M ! ((N_WAVE - samp) mod N_WAVE))) * sint (iq_q (M ! samp)))
          \<and> di' ! samp = dest_imag ! samp +
               word_of_int (sint (iq_i (M ! ((N_WAVE - samp) mod N_WAVE))) * sint (iq_q (M ! samp))
                            + sint (iq_q (M ! ((N_WAVE - samp) mod N_WAVE))) * sint (iq_i (M ! samp))))
      \<and> (N_WAVE - 0) mod N_WAVE = 0"
proof -
  define P where "P = g2_mult_loop 0 signal_mult D1 D2"
  note ps = g2_mult_loop_spec[of 0 signal_mult D1 D2, folded P_def, unfolded scast_prod_add scast_prod_sub]
  have lenP: "length P = N_WAVE" using ps assms(3) by simp
  obtain M where M: "fix_fft P ref = Some M" using fix_fft_total[OF lenP] by blast
  obtain dr' di' where acc: "g2_acc_loop 0 dest_real dest_imag M = (dr', di')"
    by (cases "g2_acc_loop 0 dest_real dest_imag M") blast
  note as = g2_acc_loop_spec[OF acc, unfolded scast_prod_add scast_prod_sub]
  have c: "calc_g2 dest_real dest_imag D1 D2 ref signal_mult = Some (dr', di', M)"
    by (simp add: calc_g2_def P_def[symmetric] M acc)
  have p: "iq_i (P ! t) = word_of_int (sint (iq_i (D1 ! t)) * sint (iq_i (D2 ! t))
                                        + sint (iq_q (D1 ! t)) * sint (iq_q (D2 ! t)))
          \<and> iq_q (P ! t) = word_of_int (sint (iq_i (D1 ! t)) * sint (iq_q (D2 ! t))
                                        - sint (iq_q (D1 ! t)) * sint (iq_i (D2 ! t)))"
    if "t < N_WAVE" for t
    using ps that assms(3) by simp
  have a: "dr' ! samp = dest_real ! samp +
               word_of_int (sint (iq_i (M ! ((N_WAVE - samp) mod N_WAVE))) * sint (iq_i (M ! samp))
                            - sint (iq_q (M ! ((N_WAVE - samp) mod N_WAVE))) * sint (iq_q (M ! samp)))
          \<and> di' ! samp = dest_imag ! samp +
               word_of_int (sint (iq_i (M ! ((N_WAVE - samp) mod N_WAVE))) * sint (iq_q (M ! samp))
                            + sint (iq_q (M ! ((N_WAVE - samp) mod N_WAVE))) * sint (iq_i (M ! samp)))"
    if "samp < N_WAVE" for samp
    using as that assms(4,5) by simp
  have l: "length dr' = N_WAVE" "length di' = N_WAVE" using as assms(4,5) by simp_all
  show ?thesis
    using lenP p M c l a by (intro exI[of _ P] exI[of _ M] exI[of _ dr'] exI[of _ di']) simp
qed

theorem calc_g2_product_fft_mirror_witness:
  "\<exists>P M dr' di'.
      calc_g2 (replicate N_WAVE 7) (replicate N_WAVE 9)
        (replicate N_WAVE \<lparr>iq_i = 3, iq_q = 0\<rparr>) (replicate N_WAVE \<lparr>iq_i = 5, iq_q = 1\<rparr>)
        (replicate 768 0) (replicate N_WAVE \<lparr>iq_i = 0, iq_q = 0\<rparr>) = Some (dr', di', M)
      \<and> fix_fft P (replicate 768 0) = Some M
      \<and> P ! 2 = \<lparr>iq_i = 15, iq_q = 3\<rparr>
      \<and> dr' ! 0 = 7 + word_of_int (sint (iq_i (M ! 0)) * sint (iq_i (M ! 0))
                                    - sint (iq_q (M ! 0)) * sint (iq_q (M ! 0)))
      \<and> di' ! 1 = 9 + word_of_int (sint (iq_i (M ! 1023)) * sint (iq_q (M ! 1))
                                    + sint (iq_q (M ! 1023)) * sint (iq_i (M ! 1)))"
proof -
  have l: "length (replicate N_WAVE \<lparr>iq_i = 3 :: 16 word, iq_q = 0\<rparr>) = N_WAVE"
    "length (replicate N_WAVE \<lparr>iq_i = 5 :: 16 word, iq_q = 1\<rparr>) = N_WAVE"
    "length (replicate N_WAVE \<lparr>iq_i = 0 :: 32 word, iq_q = 0\<rparr>) = N_WAVE"
    "length (replicate N_WAVE (7 :: 64 word)) = N_WAVE"
    "length (replicate N_WAVE (9 :: 64 word)) = N_WAVE"
    by simp_all
  have k: "(0 :: nat) < N_WAVE" "(1 :: nat) < N_WAVE" "(2 :: nat) < N_WAVE"
    by (simp_all add: N_WAVE_def)
  from calc_g2_product_fft_mirror[OF l, where ref = "replicate 768 0"]
  obtain P M dr' di' where
    p: "\<forall>t < N_WAVE.
            iq_i (P ! t) = word_of_int (sint (iq_i (replicate N_WAVE \<lparr>iq_i = 3 :: 16 word, iq_q = 0\<rparr> ! t))
                 * sint (iq_i (replicate N_WAVE \<lparr>iq_i = 5 :: 16 word, iq_q = 1\<rparr> ! t))
               + sint (iq_q (replicate N_WAVE \<lparr>iq_i = 3 :: 16 word, iq_q = 0\<rparr> ! t))
                 * sint (iq_q (replicate N_WAVE \<lparr>iq_i = 5 :: 16 word, iq_q = 1\<rparr> ! t)))
          \<and> iq_q (P ! t) = word_of_int (sint (iq_i (replicate N_WAVE \<lparr>iq_i = 3 :: 16 word, iq_q = 0\<rparr> ! t))
                 * sint (iq_q (replicate N_WAVE \<lparr>iq_i = 5 :: 16 word, iq_q = 1\<rparr> ! t))
               - sint (iq_q (replicate N_WAVE \<lparr>iq_i = 3 :: 16 word, iq_q = 0\<rparr> ! t))
                 * sint (iq_i (replicate N_WAVE \<lparr>iq_i = 5 :: 16 word, iq_q = 1\<rparr> ! t)))"
    and m: "fix_fft P (replicate 768 0) = Some M"
    and c: "calc_g2 (replicate N_WAVE 7) (replicate N_WAVE 9)
        (replicate N_WAVE \<lparr>iq_i = 3, iq_q = 0\<rparr>) (replicate N_WAVE \<lparr>iq_i = 5, iq_q = 1\<rparr>)
        (replicate 768 0) (replicate N_WAVE \<lparr>iq_i = 0, iq_q = 0\<rparr>) = Some (dr', di', M)"
    and a: "\<forall>samp < N_WAVE.
            dr' ! samp = replicate N_WAVE 7 ! samp +
               word_of_int (sint (iq_i (M ! ((N_WAVE - samp) mod N_WAVE))) * sint (iq_i (M ! samp))
                            - sint (iq_q (M ! ((N_WAVE - samp) mod N_WAVE))) * sint (iq_q (M ! samp)))
          \<and> di' ! samp = replicate N_WAVE 9 ! samp +
               word_of_int (sint (iq_i (M ! ((N_WAVE - samp) mod N_WAVE))) * sint (iq_q (M ! samp))
                            + sint (iq_q (M ! ((N_WAVE - samp) mod N_WAVE))) * sint (iq_i (M ! samp)))"
    by blast
  have "P ! 2 = \<lparr>iq_i = 15, iq_q = 3\<rparr>"
    using p[rule_format, OF k(3)] k(3) by (cases "P ! 2") simp
  moreover have "(N_WAVE - 1) mod N_WAVE = 1023" by (simp add: N_WAVE_def)
  ultimately show ?thesis
    using a[rule_format, OF k(1)] a[rule_format, OF k(2)] k m c
    by (intro exI[of _ P] exI[of _ M] exI[of _ dr'] exI[of _ di']) simp
qed

section \<open>Properties of the direct variants\<close>

declare g1calc_real_part_loop.simps [simp del] g1calc_imag_part_loop.simps [simp del]
  g2calc_real_part_loop.simps [simp del] g2calc_imag_part_loop.simps [simp del]
  tau_loop.simps [simp del]

lemma unat_index_add:
  "t + unat tau < 2 ^ 32 \<Longrightarrow> unat (word_of_nat t + tau :: 32 word) = t + unat tau"
proof -
  assume a: "t + unat tau < 2 ^ 32"
  then have t: "unat (word_of_nat t :: 32 word) = t" by (simp add: unat_of_nat)
  then have "unat (word_of_nat t :: 32 word) + unat tau < 2 ^ LENGTH(32)" using a by simp
  then have "unat (word_of_nat t + tau) = unat (word_of_nat t :: 32 word) + unat tau"
    by (simp only: unat_add_lem)
  then show ?thesis using t by simp
qed

lemma g1calc_real_part_loop_sum:
  "unat shift < 64 \<Longrightarrow>
   g1calc_real_part_loop t dest samp_num D1 D2 tau shift =
     Some (dest + (\<Sum>k = t..<unat samp_num. signed_drop_bit (unat shift)
        (scast (iq_i (D1 ! k)) * scast (iq_i (D2 ! unat (word_of_nat k + tau)))
         + scast (iq_q (D1 ! k)) * scast (iq_q (D2 ! unat (word_of_nat k + tau))))))"
proof (induction t dest samp_num D1 D2 tau shift rule: g1calc_real_part_loop.induct)
  case (1 t dest samp_num D1 D2 tau shift)
  note sh = "1.prems"
  show ?case
  proof (cases "t < unat samp_num")
    case True
    then show ?thesis
      by (subst g1calc_real_part_loop.simps)
         (simp only: if_True sh "1.IH"[OF True sh sh], simp add: sum.atLeast_Suc_lessThan add.assoc)
  next
    case False
    then show ?thesis by (subst g1calc_real_part_loop.simps) simp
  qed
qed

lemma g1calc_real_part_undefined:
  "0 < unat samp_num \<Longrightarrow> 64 \<le> unat shift \<Longrightarrow> g1calc_real_part dest samp_num D1 D2 tau shift = None"
  unfolding g1calc_real_part_def by (subst g1calc_real_part_loop.simps) simp

lemma g1calc_imag_part_loop_sum:
  "unat shift < 64 \<Longrightarrow>
   g1calc_imag_part_loop t dest samp_num D1 D2 tau shift =
     Some (dest + (\<Sum>k = t..<unat samp_num. signed_drop_bit (unat shift)
        (scast (iq_i (D1 ! k)) * scast (iq_q (D2 ! unat (word_of_nat k + tau)))
         - scast (iq_q (D1 ! k)) * scast (iq_i (D2 ! unat (word_of_nat k + tau))))))"
proof (induction t dest samp_num D1 D2 tau shift rule: g1calc_imag_part_loop.induct)
  case (1 t dest samp_num D1 D2 tau shift)
  note sh = "1.prems"
  show ?case
  proof (cases "t < unat samp_num")
    case True
    then show ?thesis
      by (subst g1calc_imag_part_loop.simps)
         (simp only: if_True sh "1.IH"[OF True sh sh], simp add: sum.atLeast_Suc_lessThan add.assoc)
  next
    case False
    then show ?thesis by (subst g1calc_imag_part_loop.simps) simp
  qed
qed

lemma g1calc_imag_part_undefined:
  "0 < unat samp_num \<Longrightarrow> 64 \<le> unat shift \<Longrightarrow> g1calc_imag_part dest samp_num D1 D2 tau shift = None"
  unfolding g1calc_imag_part_def by (subst g1calc_imag_part_loop.simps) simp

lemma g2calc_real_part_loop_sum:
  "unat shift < 64 \<Longrightarrow>
   g2calc_real_part_loop t dest samp_num D1 D2 tau shift =
     Some (dest + (\<Sum>k = t..<unat samp_num. signed_drop_bit (unat shift)
        (g2_real_term (D1 ! k) (D1 ! unat (word_of_nat k + tau))
           (D2 ! unat (word_of_nat k + tau)) (D2 ! k))))"
proof (induction t dest samp_num D1 D2 tau shift rule: g2calc_real_part_loop.induct)
  case (1 t dest samp_num D1 D2 tau shift)
  note sh = "1.prems"
  show ?case
  proof (cases "t < unat samp_num")
    case True
    then show ?thesis
      by (subst g2calc_real_part_loop.simps)
         (simp only: if_True sh "1.IH"[OF True sh sh], simp add: sum.atLeast_Suc_lessThan add.assoc)
  next
    case False
    then show ?thesis by (subst g2calc_real_part_loop.simps) simp
  qed
qed

lemma g2calc_real_part_undefined:
  "0 < unat samp_num \<Longrightarrow> 64 \<le> unat shift \<Longrightarrow> g2calc_real_part dest samp_num D1 D2 tau shift = None"
  unfolding g2calc_real_part_def by (subst g2calc_real_part_loop.simps) simp

lemma g2calc_imag_part_loop_sum:
  "unat shift < 64 \<Longrightarrow>
   g2calc_imag_part_loop t dest samp_num D1 D2 tau shift =
     Some (dest + (\<Sum>k = t..<unat samp_num. signed_drop_bit (unat shift)
        (g2_imag_term (D1 ! k) (D1 ! unat (word_of_nat k + tau))
           (D2 ! unat (word_of_nat k + tau)) (D2 ! k))))"
proof (induction t dest samp_num D1 D2 tau shift rule: g2calc_imag_part_loop.induct)
  case (1 t dest samp_num D1 D2 tau shift)
  note sh = "1.prems"
  show ?case
  proof (cases "t < unat samp_num")
    case True
    then show ?thesis
      by (subst g2calc_imag_part_loop.simps)
         (simp only: if_True sh "1.IH"[OF True sh sh], simp add: sum.atLeast_Suc_lessThan add.assoc)
  next
    case False
    then show ?thesis by (subst g2calc_imag_part_loop.simps) simp
  qed
qed

lemma g2calc_imag_part_undefined:
  "0 < unat samp_num \<Longrightarrow> 64 \<le> unat shift \<Longrightarrow> g2calc_imag_part dest samp_num D1 D2 tau shift = None"
  unfolding g2calc_imag_part_def by (subst g2calc_imag_part_loop.simps) simp

lemma calc_part_no_samples:
  "g1calc_real_part dest 0 D1 D2 tau shift = Some dest"
  "g1calc_imag_part dest 0 D1 D2 tau shift = Some dest"
  "g2calc_real_part dest 0 D1 D2 tau shift = Some dest"
  "g2calc_imag_part dest 0 D1 D2 tau shift = Some dest"
  unfolding g1calc_real_part_def g1calc_imag_part_def g2calc_real_part_def g2calc_imag_part_def
  by (subst g1calc_real_part_loop.simps g1calc_imag_part_loop.simps
        g2calc_real_part_loop.simps g2calc_imag_part_loop.simps, simp)+

lemma unat_word_succ:
  fixes tau tau_max :: "32 word"
  assumes "tau < tau_max"
  shows "unat (tau + 1) = Suc (unat tau)"
proof -
  have a: "unat tau < unat tau_max" using assms by (simp add: word_less_nat_alt)
  have "unat tau_max < 2 ^ LENGTH(32)" by (rule unsigned_less)
  then have "unat tau + unat (1 :: 32 word) < 2 ^ LENGTH(32)" using a by simp
  then have "unat (tau + 1) = unat tau + unat (1 :: 32 word)" by (simp only: unat_add_lem)
  then show ?thesis by simp
qed

text \<open>When both kernels are defined for the data at hand, the loop over the lags returns
  and has applied them to the entries from \<open>tau\<close> up to \<open>tau_max\<close>.\<close>

lemma tau_loop_spec:
  "(\<And>dest tau. rp dest samp_num D1 D2 tau shift \<noteq> None) \<Longrightarrow>
   (\<And>dest tau. ip dest samp_num D1 D2 tau shift \<noteq> None) \<Longrightarrow>
   \<exists>re' im'. tau_loop rp ip tau tau_max re im samp_num D1 D2 shift = Some (re', im')
     \<and> length re' = length re \<and> length im' = length im
     \<and> (\<forall>k < length re. re' ! k =
          (if unat tau \<le> k \<and> k < unat tau_max
           then the (rp (re ! k) samp_num D1 D2 (word_of_nat k) shift) else re ! k))
     \<and> (\<forall>k < length im. im' ! k =
          (if unat tau \<le> k \<and> k < unat tau_max
           then the (ip (im ! k) samp_num D1 D2 (word_of_nat k) shift) else im ! k))"
proof (induction rp ip tau tau_max re im samp_num D1 D2 shift rule: tau_loop.induct)
  case (1 rp ip tau tau_max re im samp_num D1 D2 shift)
  note rd = "1.prems"(1) and idf = "1.prems"(2)
  show ?case
  proof (cases "tau < tau_max")
    case False
    then have "\<not> unat tau < unat tau_max" by (simp add: word_less_nat_alt)
    then show ?thesis using False by (subst tau_loop.simps) auto
  next
    case True
    obtain r where r: "rp (re ! unat tau) samp_num D1 D2 tau shift = Some r"
      using rd[of "re ! unat tau" tau] by auto
    obtain i where i: "ip (im ! unat tau) samp_num D1 D2 tau shift = Some i"
      using idf[of "im ! unat tau" tau] by auto
    define re1 where "re1 = re[unat tau := r]"
    define im1 where "im1 = im[unat tau := i]"
    from "1.IH"[OF True r i rd idf, folded re1_def im1_def, unfolded unat_word_succ[OF True]]
    obtain re' im' where
      rec: "tau_loop rp ip (tau + 1) tau_max re1 im1 samp_num D1 D2 shift = Some (re', im')"
      and len1: "length re' = length re1" "length im' = length im1"
      and nre: "\<forall>k < length re1. re' ! k =
          (if Suc (unat tau) \<le> k \<and> k < unat tau_max
           then the (rp (re1 ! k) samp_num D1 D2 (word_of_nat k) shift) else re1 ! k)"
      and nim: "\<forall>k < length im1. im' ! k =
          (if Suc (unat tau) \<le> k \<and> k < unat tau_max
           then the (ip (im1 ! k) samp_num D1 D2 (word_of_nat k) shift) else im1 ! k)"
      by blast
    have t: "tau_loop rp ip tau tau_max re im samp_num D1 D2 shift = Some (re', im')"
      using rec True r i by (subst tau_loop.simps) (simp add: re1_def im1_def)
    have lt: "unat tau < unat tau_max" using True by (simp add: word_less_nat_alt)
    have w: "word_of_nat (unat tau) = tau" by simp
    have len: "length re' = length re" "length im' = length im"
      using len1 by (simp_all add: re1_def im1_def)
    have "re' ! k = (if unat tau \<le> k \<and> k < unat tau_max
         then the (rp (re ! k) samp_num D1 D2 (word_of_nat k) shift) else re ! k)"
      if "k < length re" for k
    proof (cases "k = unat tau")
      case True
      then show ?thesis using nre that lt r w by (simp add: re1_def)
    next
      case False
      then have "(Suc (unat tau) \<le> k) = (unat tau \<le> k)" by auto
      then show ?thesis using nre that False by (simp add: re1_def)
    qed
    moreover have "im' ! k = (if unat tau \<le> k \<and> k < unat tau_max
         then the (ip (im ! k) samp_num D1 D2 (word_of_nat k) shift) else im ! k)"
      if "k < length im" for k
    proof (cases "k = unat tau")
      case True
      then show ?thesis using nim that lt i w by (simp add: im1_def)
    next
      case False
      then have "(Suc (unat tau) \<le> k) = (unat tau \<le> k)" by auto
      then show ?thesis using nim that False by (simp add: im1_def)
    qed
    ultimately show ?thesis using t len by blast
  qed
qed

text \<open>A kernel that is undefined at the first lag makes the loop undefined.\<close>

lemma tau_loop_undefined:
  "0 < tau_max \<Longrightarrow> rp (re ! 0) samp_num D1 D2 0 shift = None \<Longrightarrow>
   tau_loop rp ip 0 tau_max re im samp_num D1 D2 shift = None"
  by (subst tau_loop.simps) simp

lemma rec_get_result_memory_full:
  "length mem = n \<Longrightarrow> length buf = n \<Longrightarrow> rec_get_result_memory mem buf n = mem"
  by (simp add: rec_get_result_memory_def)

lemma rec_get_result_memory_length:
  "len \<le> length mem \<Longrightarrow> len \<le> length buf \<Longrightarrow>
   length (rec_get_result_memory mem buf len) = length buf"
  by (simp add: rec_get_result_memory_def)

lemma rec_get_result_memory_nth:
  "len \<le> length mem \<Longrightarrow> len \<le> length buf \<Longrightarrow> k < length buf \<Longrightarrow>
   rec_get_result_memory mem buf len ! k = (if k < len then mem ! k else buf ! k)"
  by (simp add: rec_get_result_memory_def nth_append)

text \<open>
  When both kernels are defined for the sample count of the round, the round returns:
  the signal accumulators have received the kernels' results on the signal buffers, and
  the background accumulators, when the background is measured, the kernels' results on
  the buffers after the background fetch.
\<close>

lemma average_round_spec:
  fixes sig bg :: "iq_pair_raw list \<times> iq_pair_raw list" and b :: corr_buffers
    and tau_max :: "32 word" and N :: nat
  assumes rd: "\<And>dest D1 D2 tau. rp dest (word_of_nat N - tau_max) D1 D2 tau shift \<noteq> None"
    and idf: "\<And>dest D1 D2 tau. ip dest (word_of_nat N - tau_max) D1 D2 tau shift \<noteq> None"
  defines "samp \<equiv> word_of_nat N - tau_max"
  defines "S1 \<equiv> rec_get_result_memory (fst sig) (iq_pair_D1 b) N"
  defines "S2 \<equiv> rec_get_result_memory (snd sig) (iq_pair_D2 b) N"
  defines "B1 \<equiv> rec_get_result_memory (fst bg) S1 (unat samp)"
  defines "B2 \<equiv> rec_get_result_memory (snd bg) S2 (unat samp)"
  shows "\<exists>b'. average_round rp ip N tau_max mss shift sig bg b = Some b'
     \<and> length (result_real b') = length (result_real b)
     \<and> length (result_imag b') = length (result_imag b)
     \<and> length (result_ss_real b') = length (result_ss_real b)
     \<and> length (result_ss_imag b') = length (result_ss_imag b)
     \<and> (\<forall>k < length (result_real b). result_real b' ! k =
          (if k < unat tau_max then the (rp (result_real b ! k) samp S1 S2 (word_of_nat k) shift)
           else result_real b ! k))
     \<and> (\<forall>k < length (result_imag b). result_imag b' ! k =
          (if k < unat tau_max then the (ip (result_imag b ! k) samp S1 S2 (word_of_nat k) shift)
           else result_imag b ! k))
     \<and> (\<forall>k < length (result_ss_real b). result_ss_real b' ! k =
          (if mss \<noteq> 0 \<and> k < unat tau_max
           then the (rp (result_ss_real b ! k) samp B1 B2 (word_of_nat k) shift)
           else result_ss_real b ! k))
     \<and> (\<forall>k < length (result_ss_imag b). result_ss_imag b' ! k =
          (if mss \<noteq> 0 \<and> k < unat tau_max
           then the (ip (result_ss_imag b ! k) samp B1 B2 (word_of_nat k) shift)
           else result_ss_imag b ! k))"
proof -
  from tau_loop_spec[of rp samp S1 S2 shift ip 0 tau_max "result_real b" "result_imag b"]
    rd idf
  obtain re im where
    s: "tau_loop rp ip 0 tau_max (result_real b) (result_imag b) samp S1 S2 shift = Some (re, im)"
    and sl: "length re = length (result_real b)" "length im = length (result_imag b)"
    and sre: "\<forall>k < length (result_real b). re ! k =
          (if k < unat tau_max then the (rp (result_real b ! k) samp S1 S2 (word_of_nat k) shift)
           else result_real b ! k)"
    and sim: "\<forall>k < length (result_imag b). im ! k =
          (if k < unat tau_max then the (ip (result_imag b ! k) samp S1 S2 (word_of_nat k) shift)
           else result_imag b ! k)"
    unfolding samp_def by auto
  from tau_loop_spec[of rp samp B1 B2 shift ip 0 tau_max "result_ss_real b" "result_ss_imag b"]
    rd idf
  obtain re2 im2 where
    g: "tau_loop rp ip 0 tau_max (result_ss_real b) (result_ss_imag b) samp B1 B2 shift
          = Some (re2, im2)"
    and gl: "length re2 = length (result_ss_real b)" "length im2 = length (result_ss_imag b)"
    and gre: "\<forall>k < length (result_ss_real b). re2 ! k =
          (if k < unat tau_max then the (rp (result_ss_real b ! k) samp B1 B2 (word_of_nat k) shift)
           else result_ss_real b ! k)"
    and gim: "\<forall>k < length (result_ss_imag b). im2 ! k =
          (if k < unat tau_max then the (ip (result_ss_imag b ! k) samp B1 B2 (word_of_nat k) shift)
           else result_ss_imag b ! k)"
    unfolding samp_def by auto
  show ?thesis
  proof (cases "mss = 0")
    case True
    have "average_round rp ip N tau_max mss shift sig bg b =
        Some (b\<lparr>iq_pair_D1 := S1, iq_pair_D2 := S2, result_real := re, result_imag := im\<rparr>)"
      using s True
      by (simp add: average_round_def Let_def samp_def[symmetric] S1_def[symmetric]
            S2_def[symmetric])
    then show ?thesis using sl sre sim True by simp
  next
    case False
    have "average_round rp ip N tau_max mss shift sig bg b =
        Some (b\<lparr>iq_pair_D1 := B1, iq_pair_D2 := B2, result_real := re, result_imag := im,
                 result_ss_real := re2, result_ss_imag := im2\<rparr>)"
      using s g False
      by (simp add: average_round_def Let_def samp_def[symmetric] S1_def[symmetric]
            S2_def[symmetric] B1_def[symmetric] B2_def[symmetric])
    then show ?thesis using sl sre sim gl gre gim False by simp
  qed
qed

lemma samp_num_unat:
  fixes tau_max :: "32 word"
  assumes "tau_max \<le> 1024"
  shows "unat (1024 - tau_max) = 1024 - unat tau_max"
  using assms by (simp add: unat_sub)

lemma shifted_term_add:
  fixes a b c d :: "16 word"
  shows "signed_drop_bit s (scast a * scast b + scast c * scast d :: 64 word)
     = word_of_int (drop_bit s (sint a * sint b + sint c * sint d))"
proof -
  have ra: "- 32768 \<le> sint a" "sint a < 32768" "- 32768 \<le> sint b" "sint b < 32768"
    and rc: "- 32768 \<le> sint c" "sint c < 32768" "- 32768 \<le> sint d" "sint d < 32768"
    using sint_ge[of a] sint_lt[of a] sint_ge[of b] sint_lt[of b]
      sint_ge[of c] sint_lt[of c] sint_ge[of d] sint_lt[of d] by simp_all
  have "- (2 ^ (LENGTH(64) - 1)) \<le> sint a * sint b + sint c * sint d"
    "sint a * sint b + sint c * sint d < 2 ^ (LENGTH(64) - 1)"
    using prod_bound(1,2)[OF ra] prod_bound(1,2)[OF rc] by simp_all
  then show ?thesis
    unfolding scast_prod_add drop_bit_eq_div by (rule sdrop_of_int)
qed

lemma shifted_term_sub:
  fixes a b c d :: "16 word"
  shows "signed_drop_bit s (scast a * scast b - scast c * scast d :: 64 word)
     = word_of_int (drop_bit s (sint a * sint b - sint c * sint d))"
proof -
  have ra: "- 32768 \<le> sint a" "sint a < 32768" "- 32768 \<le> sint b" "sint b < 32768"
    and rc: "- 32768 \<le> sint c" "sint c < 32768" "- 32768 \<le> sint d" "sint d < 32768"
    using sint_ge[of a] sint_lt[of a] sint_ge[of b] sint_lt[of b]
      sint_ge[of c] sint_lt[of c] sint_ge[of d] sint_lt[of d] by simp_all
  have "- (2 ^ (LENGTH(64) - 1)) \<le> sint a * sint b - sint c * sint d"
    "sint a * sint b - sint c * sint d < 2 ^ (LENGTH(64) - 1)"
    using prod_bound(1,2)[OF ra] prod_bound(1,2)[OF rc] by simp_all
  then show ?thesis
    unfolding scast_prod_sub drop_bit_eq_div by (rule sdrop_of_int)
qed

lemma g1calc_real_part_exact:
  assumes sh: "unat shift < 64" and "unat samp_num + unat tau \<le> 2 ^ 32"
  shows "g1calc_real_part dest samp_num D1 D2 tau shift =
     Some (dest + word_of_int (\<Sum>t < unat samp_num. drop_bit (unat shift)
        (sint (iq_i (D1 ! t)) * sint (iq_i (D2 ! (t + unat tau)))
         + sint (iq_q (D1 ! t)) * sint (iq_q (D2 ! (t + unat tau))))))"
proof -
  have "(\<Sum>k = 0..<unat samp_num. signed_drop_bit (unat shift)
        (scast (iq_i (D1 ! k)) * scast (iq_i (D2 ! unat (word_of_nat k + tau)))
         + scast (iq_q (D1 ! k)) * scast (iq_q (D2 ! unat (word_of_nat k + tau))) :: 64 word))
     = (\<Sum>k = 0..<unat samp_num. word_of_int (drop_bit (unat shift)
        (sint (iq_i (D1 ! k)) * sint (iq_i (D2 ! (k + unat tau)))
         + sint (iq_q (D1 ! k)) * sint (iq_q (D2 ! (k + unat tau))))))"
  proof (rule sum.cong[OF refl])
    fix k assume "k \<in> {0..<unat samp_num}"
    then have "k + unat tau < 2 ^ 32" using assms(2) by simp
    then have "unat (word_of_nat k + tau) = k + unat tau" by (rule unat_index_add)
    then show "signed_drop_bit (unat shift)
        (scast (iq_i (D1 ! k)) * scast (iq_i (D2 ! unat (word_of_nat k + tau)))
         + scast (iq_q (D1 ! k)) * scast (iq_q (D2 ! unat (word_of_nat k + tau))) :: 64 word)
      = word_of_int (drop_bit (unat shift)
        (sint (iq_i (D1 ! k)) * sint (iq_i (D2 ! (k + unat tau)))
         + sint (iq_q (D1 ! k)) * sint (iq_q (D2 ! (k + unat tau)))))"
      by (simp only: shifted_term_add)
  qed
  then show ?thesis
    by (simp only: g1calc_real_part_def g1calc_real_part_loop_sum[OF sh] of_int_sum atLeast0LessThan)
qed

lemma g1calc_imag_part_exact:
  assumes sh: "unat shift < 64" and "unat samp_num + unat tau \<le> 2 ^ 32"
  shows "g1calc_imag_part dest samp_num D1 D2 tau shift =
     Some (dest + word_of_int (\<Sum>t < unat samp_num. drop_bit (unat shift)
        (sint (iq_i (D1 ! t)) * sint (iq_q (D2 ! (t + unat tau)))
         - sint (iq_q (D1 ! t)) * sint (iq_i (D2 ! (t + unat tau))))))"
proof -
  have "(\<Sum>k = 0..<unat samp_num. signed_drop_bit (unat shift)
        (scast (iq_i (D1 ! k)) * scast (iq_q (D2 ! unat (word_of_nat k + tau)))
         - scast (iq_q (D1 ! k)) * scast (iq_i (D2 ! unat (word_of_nat k + tau))) :: 64 word))
     = (\<Sum>k = 0..<unat samp_num. word_of_int (drop_bit (unat shift)
        (sint (iq_i (D1 ! k)) * sint (iq_q (D2 ! (k + unat tau)))
         - sint (iq_q (D1 ! k)) * sint (iq_i (D2 ! (k + unat tau))))))"
  proof (rule sum.cong[OF refl])
    fix k assume "k \<in> {0..<unat samp_num}"
    then have "k + unat tau < 2 ^ 32" using assms(2) by simp
    then have "unat (word_of_nat k + tau) = k + unat tau" by (rule unat_index_add)
    then show "signed_drop_bit (unat shift)
        (scast (iq_i (D1 ! k)) * scast (iq_q (D2 ! unat (word_of_nat k + tau)))
         - scast (iq_q (D1 ! k)) * scast (iq_i (D2 ! unat (word_of_nat k + tau))) :: 64 word)
      = word_of_int (drop_bit (unat shift)
        (sint (iq_i (D1 ! k)) * sint (iq_q (D2 ! (k + unat tau)))
         - sint (iq_q (D1 ! k)) * sint (iq_i (D2 ! (k + unat tau)))))"
      by (simp only: shifted_term_sub)
  qed
  then show ?thesis
    by (simp only: g1calc_imag_part_def g1calc_imag_part_loop_sum[OF sh] of_int_sum atLeast0LessThan)
qed



text \<open>
  Claim C7, with the shift count bounded. In the direct g1 variant with
  \<open>tau_max \<le> 1024\<close>, for every lag \<open>tau < tau_max\<close> and every shift count below 64, one
  round of the averaging loop returns and has added to the real accumulator at \<open>tau\<close> the
  sum over \<open>t < 1024 - tau_max\<close> of \<open>(D1[t].i*D2[t+tau].i + D1[t].q*D2[t+tau].q) >> shift\<close>
  and to the imaginary accumulator the sum of
  \<open>(D1[t].i*D2[t+tau].q - D1[t].q*D2[t+tau].i) >> shift\<close>, each term computed exactly and
  shifted on its own, \<open>D1\<close> and \<open>D2\<close> being the channels fetched in that round; the number
  of terms is \<open>samp_num = 1024 - tau_max\<close>.
\<close>

theorem g1_direct_round_sum:
  assumes "tau_max \<le> 1024" "tau < tau_max" and sh: "unat shift < 64"
    and "length (fst sig) = G1CALC_SAMPLE_NUM" "length (snd sig) = G1CALC_SAMPLE_NUM"
    and "length (iq_pair_D1 b) = G1CALC_SAMPLE_NUM" "length (iq_pair_D2 b) = G1CALC_SAMPLE_NUM"
    and "length (result_real b) = unat tau_max" "length (result_imag b) = unat tau_max"
  shows "unat (word_of_nat G1CALC_SAMPLE_NUM - tau_max :: 32 word) = 1024 - unat tau_max
     \<and> (\<exists>b'. g1_average_round tau_max measure_ss shift sig bg b = Some b'
        \<and> result_real b' ! unat tau
          = result_real b ! unat tau
            + word_of_int (\<Sum>t < 1024 - unat tau_max. drop_bit (unat shift)
                (sint (iq_i (fst sig ! t)) * sint (iq_i (snd sig ! (t + unat tau)))
                 + sint (iq_q (fst sig ! t)) * sint (iq_q (snd sig ! (t + unat tau)))))
        \<and> result_imag b' ! unat tau
          = result_imag b ! unat tau
            + word_of_int (\<Sum>t < 1024 - unat tau_max. drop_bit (unat shift)
                (sint (iq_i (fst sig ! t)) * sint (iq_q (snd sig ! (t + unat tau)))
                 - sint (iq_q (fst sig ! t)) * sint (iq_i (snd sig ! (t + unat tau))))))"
proof -
  have sn: "(word_of_nat G1CALC_SAMPLE_NUM :: 32 word) = 1024"
    by (simp add: G1CALC_SAMPLE_NUM_def)
  have un: "unat (1024 - tau_max) = 1024 - unat tau_max"
    using assms(1) by (rule samp_num_unat)
  have lt: "unat tau < unat tau_max" using assms(2) by (simp add: word_less_nat_alt)
  have "unat tau_max \<le> unat (1024 :: 32 word)" using assms(1) by (simp only: word_le_nat_alt)
  then have le: "unat tau_max \<le> 1024" by simp
  have b: "unat (1024 - tau_max) + unat tau \<le> 2 ^ 32" using un lt le by simp
  have d: "rec_get_result_memory (fst sig) (iq_pair_D1 b) G1CALC_SAMPLE_NUM = fst sig"
    "rec_get_result_memory (snd sig) (iq_pair_D2 b) G1CALC_SAMPLE_NUM = snd sig"
    using assms(4-7) by (simp_all add: rec_get_result_memory_full)
  have k: "unat tau < length (result_real b)" "unat tau < length (result_imag b)"
    using lt assms(8,9) by simp_all
  have w: "word_of_nat (unat tau) = tau" by simp
  have rd: "g1calc_real_part dest (word_of_nat G1CALC_SAMPLE_NUM - tau_max) D1 D2 t shift \<noteq> None"
    for dest D1 D2 t
    by (simp add: g1calc_real_part_def g1calc_real_part_loop_sum[OF sh])
  have idf: "g1calc_imag_part dest (word_of_nat G1CALC_SAMPLE_NUM - tau_max) D1 D2 t shift \<noteq> None"
    for dest D1 D2 t
    by (simp add: g1calc_imag_part_def g1calc_imag_part_loop_sum[OF sh])
  from average_round_spec[of g1calc_real_part G1CALC_SAMPLE_NUM tau_max shift g1calc_imag_part
      measure_ss sig bg b, OF rd idf, folded g1_average_round_def, unfolded d sn]
  obtain b' where r: "g1_average_round tau_max measure_ss shift sig bg b = Some b'"
    and re: "\<forall>k < length (result_real b). result_real b' ! k =
          (if k < unat tau_max
           then the (g1calc_real_part (result_real b ! k) (1024 - tau_max) (fst sig) (snd sig)
                  (word_of_nat k) shift)
           else result_real b ! k)"
    and im: "\<forall>k < length (result_imag b). result_imag b' ! k =
          (if k < unat tau_max
           then the (g1calc_imag_part (result_imag b ! k) (1024 - tau_max) (fst sig) (snd sig)
                  (word_of_nat k) shift)
           else result_imag b ! k)"
    by blast
  have "result_real b' ! unat tau
      = the (g1calc_real_part (result_real b ! unat tau) (1024 - tau_max) (fst sig) (snd sig)
          tau shift)"
    using re k(1) lt w by simp
  then have re': "result_real b' ! unat tau
      = result_real b ! unat tau
        + word_of_int (\<Sum>t < 1024 - unat tau_max. drop_bit (unat shift)
            (sint (iq_i (fst sig ! t)) * sint (iq_i (snd sig ! (t + unat tau)))
             + sint (iq_q (fst sig ! t)) * sint (iq_q (snd sig ! (t + unat tau)))))"
    unfolding g1calc_real_part_exact[OF sh b] un by simp
  have "result_imag b' ! unat tau
      = the (g1calc_imag_part (result_imag b ! unat tau) (1024 - tau_max) (fst sig) (snd sig)
          tau shift)"
    using im k(2) lt w by simp
  then have im': "result_imag b' ! unat tau
      = result_imag b ! unat tau
        + word_of_int (\<Sum>t < 1024 - unat tau_max. drop_bit (unat shift)
            (sint (iq_i (fst sig ! t)) * sint (iq_q (snd sig ! (t + unat tau)))
             - sint (iq_q (fst sig ! t)) * sint (iq_i (snd sig ! (t + unat tau)))))"
    unfolding g1calc_imag_part_exact[OF sh b] un by simp
  show ?thesis unfolding sn using un r re' im' by blast
qed

theorem g1_direct_round_sum_witness:
  "\<exists>b'. g1_average_round 1022 0 1
      (replicate 1024 \<lparr>iq_i = 3, iq_q = 1\<rparr>, replicate 1024 \<lparr>iq_i = 5, iq_q = 2\<rparr>)
      ([], [])
      \<lparr>iq_pair_D1 = replicate 1024 \<lparr>iq_i = 0, iq_q = 0\<rparr>,
       iq_pair_D2 = replicate 1024 \<lparr>iq_i = 0, iq_q = 0\<rparr>,
       result_real = replicate 1022 100, result_imag = replicate 1022 200,
       result_ss_real = [], result_ss_imag = []\<rparr> = Some b'
     \<and> result_real b' ! 7 = 116 \<and> result_imag b' ! 7 = 200"
proof -
  have s: "{..<(2::nat)} = {0, 1}" by auto
  show ?thesis
    using g1_direct_round_sum[of 1022 7 1
      "(replicate 1024 \<lparr>iq_i = 3, iq_q = 1\<rparr>, replicate 1024 \<lparr>iq_i = 5, iq_q = 2\<rparr>)"
      "\<lparr>iq_pair_D1 = replicate 1024 \<lparr>iq_i = 0, iq_q = 0\<rparr>,
       iq_pair_D2 = replicate 1024 \<lparr>iq_i = 0, iq_q = 0\<rparr>,
       result_real = replicate 1022 100, result_imag = replicate 1022 200,
       result_ss_real = [], result_ss_imag = []\<rparr>" 0 "([], [])"]
    by (simp add: G1CALC_SAMPLE_NUM_def s)
qed

text \<open>
  Claim C7 as stated covers every shift value. The parameter \<open>shift_result\<close> is taken
  unchecked from the parameter list, and with a shift count of 64 the right shift of
  the 64-bit term is undefined in C: already with one sample per lag the round has no
  defined result.
\<close>

theorem g1_direct_round_shift_counterexample:
  "g1_average_round 1023 0 64
      (replicate 1024 \<lparr>iq_i = 3, iq_q = 1\<rparr>, replicate 1024 \<lparr>iq_i = 5, iq_q = 2\<rparr>)
      ([], [])
      \<lparr>iq_pair_D1 = replicate 1024 \<lparr>iq_i = 0, iq_q = 0\<rparr>,
       iq_pair_D2 = replicate 1024 \<lparr>iq_i = 0, iq_q = 0\<rparr>,
       result_real = replicate 1023 100, result_imag = replicate 1023 200,
       result_ss_real = [], result_ss_imag = []\<rparr> = None"
proof -
  have "g1calc_real_part dest 1 D1 D2 0 64 = None" for dest D1 D2
    by (rule g1calc_real_part_undefined) simp_all
  then have "tau_loop g1calc_real_part g1calc_imag_part 0 1023 re im 1 D1 D2 64 = None"
    for re im D1 D2
    by (intro tau_loop_undefined) simp_all
  then show ?thesis
    by (simp add: g1_average_round_def average_round_def Let_def G1CALC_SAMPLE_NUM_def)
qed

lemma sum_single:
  fixes f :: "nat \<Rightarrow> 'a::comm_monoid_add"
  assumes "m < n" "\<And>t. t < n \<Longrightarrow> t \<noteq> m \<Longrightarrow> f t = 0"
  shows "(\<Sum>t < n. f t) = f m"
proof -
  have "(\<Sum>t < n. f t) = (\<Sum>t \<in> {..<n}. if t = m then f m else 0)"
    using assms(2) by (intro sum.cong) auto
  also have "\<dots> = f m" using assms(1) by (simp add: sum.delta)
  finally show ?thesis .
qed

lemma g2calc_real_part_sum:
  assumes sh: "unat shift < 64" and "unat samp_num + unat tau \<le> 2 ^ 32"
  shows "g2calc_real_part dest samp_num D1 D2 tau shift =
     Some (dest + (\<Sum>t < unat samp_num. signed_drop_bit (unat shift)
        (g2_real_term (D1 ! t) (D1 ! (t + unat tau)) (D2 ! (t + unat tau)) (D2 ! t))))"
proof -
  have "(\<Sum>k = 0..<unat samp_num. signed_drop_bit (unat shift)
        (g2_real_term (D1 ! k) (D1 ! unat (word_of_nat k + tau))
           (D2 ! unat (word_of_nat k + tau)) (D2 ! k)))
     = (\<Sum>k = 0..<unat samp_num. signed_drop_bit (unat shift)
        (g2_real_term (D1 ! k) (D1 ! (k + unat tau)) (D2 ! (k + unat tau)) (D2 ! k)))"
  proof (rule sum.cong[OF refl])
    fix k assume "k \<in> {0..<unat samp_num}"
    then have "k + unat tau < 2 ^ 32" using assms(2) by simp
    then have "unat (word_of_nat k + tau) = k + unat tau" by (rule unat_index_add)
    then show "signed_drop_bit (unat shift)
        (g2_real_term (D1 ! k) (D1 ! unat (word_of_nat k + tau))
           (D2 ! unat (word_of_nat k + tau)) (D2 ! k))
      = signed_drop_bit (unat shift)
        (g2_real_term (D1 ! k) (D1 ! (k + unat tau)) (D2 ! (k + unat tau)) (D2 ! k))"
      by simp
  qed
  then show ?thesis
    by (simp only: g2calc_real_part_def g2calc_real_part_loop_sum[OF sh] atLeast0LessThan)
qed

lemma g2calc_imag_part_sum:
  assumes sh: "unat shift < 64" and "unat samp_num + unat tau \<le> 2 ^ 32"
  shows "g2calc_imag_part dest samp_num D1 D2 tau shift =
     Some (dest + (\<Sum>t < unat samp_num. signed_drop_bit (unat shift)
        (g2_imag_term (D1 ! t) (D1 ! (t + unat tau)) (D2 ! (t + unat tau)) (D2 ! t))))"
proof -
  have "(\<Sum>k = 0..<unat samp_num. signed_drop_bit (unat shift)
        (g2_imag_term (D1 ! k) (D1 ! unat (word_of_nat k + tau))
           (D2 ! unat (word_of_nat k + tau)) (D2 ! k)))
     = (\<Sum>k = 0..<unat samp_num. signed_drop_bit (unat shift)
        (g2_imag_term (D1 ! k) (D1 ! (k + unat tau)) (D2 ! (k + unat tau)) (D2 ! k)))"
  proof (rule sum.cong[OF refl])
    fix k assume "k \<in> {0..<unat samp_num}"
    then have "k + unat tau < 2 ^ 32" using assms(2) by simp
    then have "unat (word_of_nat k + tau) = k + unat tau" by (rule unat_index_add)
    then show "signed_drop_bit (unat shift)
        (g2_imag_term (D1 ! k) (D1 ! unat (word_of_nat k + tau))
           (D2 ! unat (word_of_nat k + tau)) (D2 ! k))
      = signed_drop_bit (unat shift)
        (g2_imag_term (D1 ! k) (D1 ! (k + unat tau)) (D2 ! (k + unat tau)) (D2 ! k))"
      by simp
  qed
  then show ?thesis
    by (simp only: g2calc_imag_part_def g2calc_imag_part_loop_sum[OF sh] atLeast0LessThan)
qed

lemma average_round_no_samples:
  fixes sig bg :: "iq_pair_raw list \<times> iq_pair_raw list" and b :: corr_buffers
    and tau_max :: "32 word" and N :: nat
  assumes rz: "\<And>dest D1 D2 tau. rp dest 0 D1 D2 tau shift = Some dest"
    and iz: "\<And>dest D1 D2 tau. ip dest 0 D1 D2 tau shift = Some dest"
    and N: "word_of_nat N = tau_max"
  shows "\<exists>b'. average_round rp ip N tau_max mss shift sig bg b = Some b'
           \<and> result_ss_real b' = result_ss_real b \<and> result_ss_imag b' = result_ss_imag b"
proof -
  have z: "word_of_nat N - tau_max = 0" using N by simp
  have rd: "rp dest (word_of_nat N - tau_max) D1 D2 tau shift \<noteq> None" for dest D1 D2 tau
    unfolding z by (simp add: rz)
  have idf: "ip dest (word_of_nat N - tau_max) D1 D2 tau shift \<noteq> None" for dest D1 D2 tau
    unfolding z by (simp add: iz)
  from average_round_spec[of rp N tau_max shift ip mss sig bg b, OF rd idf, unfolded z rz iz]
  obtain b' where r: "average_round rp ip N tau_max mss shift sig bg b = Some b'"
    and l: "length (result_ss_real b') = length (result_ss_real b)"
      "length (result_ss_imag b') = length (result_ss_imag b)"
    and re: "\<forall>k < length (result_ss_real b). result_ss_real b' ! k = result_ss_real b ! k"
    and im: "\<forall>k < length (result_ss_imag b). result_ss_imag b' ! k = result_ss_imag b ! k"
    by auto
  have "result_ss_real b' = result_ss_real b" using l(1) re by (intro nth_equalityI) simp_all
  moreover have "result_ss_imag b' = result_ss_imag b" using l(2) im by (intro nth_equalityI) simp_all
  ultimately show ?thesis using r by blast
qed

text \<open>
  Claim C10 as stated covers every \<open>tau_max > 0\<close>. With \<open>tau_max = 1024\<close> the number of
  samples \<open>samp_num\<close> is \<open>0\<close>: the background round fetches nothing, the correlation
  loops do not run, the round always returns, and the background accumulators do not
  depend on the signal acquisition at all.
\<close>

theorem background_round_counterexample:
  "\<not> (\<exists>sig bg b. g1_average_round 1024 1 0 sig bg b = None)
   \<and> \<not> (\<exists>sig sig' bg b.
        result_ss_real (the (g1_average_round 1024 1 0 sig bg b)) ! 1
          \<noteq> result_ss_real (the (g1_average_round 1024 1 0 sig' bg b)) ! 1)
   \<and> \<not> (\<exists>sig bg b. g2_average_round 1024 1 0 sig bg b = None)
   \<and> \<not> (\<exists>sig sig' bg b.
        result_ss_real (the (g2_average_round 1024 1 0 sig bg b)) ! 1
          \<noteq> result_ss_real (the (g2_average_round 1024 1 0 sig' bg b)) ! 1)"
proof -
  have g1: "\<exists>b'. g1_average_round 1024 1 0 sig bg b = Some b'
              \<and> result_ss_real b' = result_ss_real b \<and> result_ss_imag b' = result_ss_imag b"
    for sig bg b
    unfolding g1_average_round_def
    by (rule average_round_no_samples) (simp_all add: calc_part_no_samples G1CALC_SAMPLE_NUM_def)
  have g2: "\<exists>b'. g2_average_round 1024 1 0 sig bg b = Some b'
              \<and> result_ss_real b' = result_ss_real b \<and> result_ss_imag b' = result_ss_imag b"
    for sig bg b
    unfolding g2_average_round_def
    by (rule average_round_no_samples) (simp_all add: calc_part_no_samples G2CALC_SAMPLE_NUM_def)
  have a: "g1_average_round 1024 1 0 sig bg b \<noteq> None" for sig bg b
    using g1[of sig bg b] by auto
  have b: "result_ss_real (the (g1_average_round 1024 1 0 sig bg b)) = result_ss_real b"
    for sig bg b
    using g1[of sig bg b] by auto
  have c: "g2_average_round 1024 1 0 sig bg b \<noteq> None" for sig bg b
    using g2[of sig bg b] by auto
  have d: "result_ss_real (the (g2_average_round 1024 1 0 sig bg b)) = result_ss_real b"
    for sig bg b
    using g2[of sig bg b] by auto
  show ?thesis by (simp add: a b c d)
qed

lemma background_buffers:
  assumes "length (fst sig) = N" "length (iq_pair_D1 b) = N"
  shows "rec_get_result_memory (fst bg) (rec_get_result_memory (fst sig) (iq_pair_D1 b) N) n
     = take n (fst bg) @ drop n (fst sig)"
  using assms by (simp add: rec_get_result_memory_def)

lemma background_round_formula:
  fixes tau_max tau shift measure_ss :: "32 word"
    and sig bg :: "iq_pair_raw list \<times> iq_pair_raw list"
  assumes tm: "tau_max \<le> 1024" and t: "tau < tau_max" and ss: "measure_ss \<noteq> 0"
    and sh: "unat shift < 64"
    and len: "length (fst sig) = 1024" "length (snd sig) = 1024"
      "length (iq_pair_D1 b) = 1024" "length (iq_pair_D2 b) = 1024"
      "length (result_ss_real b) = unat tau_max" "length (result_ss_imag b) = unat tau_max"
  defines "n \<equiv> 1024 - unat tau_max"
  defines "D1 \<equiv> take n (fst bg) @ drop n (fst sig)"
  defines "D2 \<equiv> take n (snd bg) @ drop n (snd sig)"
  shows "result_ss_real (the (g1_average_round tau_max measure_ss shift sig bg b)) ! unat tau
       = result_ss_real b ! unat tau
         + word_of_int (\<Sum>t < n. drop_bit (unat shift)
             (sint (iq_i (D1 ! t)) * sint (iq_i (D2 ! (t + unat tau)))
              + sint (iq_q (D1 ! t)) * sint (iq_q (D2 ! (t + unat tau)))))"
    and "result_ss_imag (the (g1_average_round tau_max measure_ss shift sig bg b)) ! unat tau
       = result_ss_imag b ! unat tau
         + word_of_int (\<Sum>t < n. drop_bit (unat shift)
             (sint (iq_i (D1 ! t)) * sint (iq_q (D2 ! (t + unat tau)))
              - sint (iq_q (D1 ! t)) * sint (iq_i (D2 ! (t + unat tau)))))"
    and "result_ss_real (the (g2_average_round tau_max measure_ss shift sig bg b)) ! unat tau
       = result_ss_real b ! unat tau
         + (\<Sum>t < n. signed_drop_bit (unat shift)
             (g2_real_term (D1 ! t) (D1 ! (t + unat tau)) (D2 ! (t + unat tau)) (D2 ! t)))"
    and "result_ss_imag (the (g2_average_round tau_max measure_ss shift sig bg b)) ! unat tau
       = result_ss_imag b ! unat tau
         + (\<Sum>t < n. signed_drop_bit (unat shift)
             (g2_imag_term (D1 ! t) (D1 ! (t + unat tau)) (D2 ! (t + unat tau)) (D2 ! t)))"
    and "g1_average_round tau_max measure_ss shift sig bg b \<noteq> None"
    and "g2_average_round tau_max measure_ss shift sig bg b \<noteq> None"
proof -
  have sn: "(word_of_nat (1024 :: nat) :: 32 word) = 1024" by simp
  have un: "unat (1024 - tau_max) = n"
    unfolding n_def using tm by (rule samp_num_unat)
  have lt: "unat tau < unat tau_max" using t by (simp add: word_less_nat_alt)
  have "unat tau_max \<le> unat (1024 :: 32 word)" using tm by (simp only: word_le_nat_alt)
  then have le: "unat tau_max \<le> 1024" by simp
  have bd: "unat (1024 - tau_max) + unat tau \<le> 2 ^ 32" using un lt le by (simp add: n_def)
  have d1: "rec_get_result_memory (fst bg)
      (rec_get_result_memory (fst sig) (iq_pair_D1 b) 1024) n = D1"
    unfolding D1_def using len(1,3) by (simp add: rec_get_result_memory_def)
  have d2: "rec_get_result_memory (snd bg)
      (rec_get_result_memory (snd sig) (iq_pair_D2 b) 1024) n = D2"
    unfolding D2_def using len(2,4) by (simp add: rec_get_result_memory_def)
  have k: "unat tau < length (result_ss_real b)" "unat tau < length (result_ss_imag b)"
    using lt len(5,6) by simp_all
  have w: "word_of_nat (unat tau) = tau" by simp
  have rd1: "g1calc_real_part dest (word_of_nat 1024 - tau_max) X1 X2 t shift \<noteq> None"
    for dest X1 X2 t
    by (simp add: g1calc_real_part_def g1calc_real_part_loop_sum[OF sh])
  have id1: "g1calc_imag_part dest (word_of_nat 1024 - tau_max) X1 X2 t shift \<noteq> None"
    for dest X1 X2 t
    by (simp add: g1calc_imag_part_def g1calc_imag_part_loop_sum[OF sh])
  have rd2: "g2calc_real_part dest (word_of_nat 1024 - tau_max) X1 X2 t shift \<noteq> None"
    for dest X1 X2 t
    by (simp add: g2calc_real_part_def g2calc_real_part_loop_sum[OF sh])
  have id2: "g2calc_imag_part dest (word_of_nat 1024 - tau_max) X1 X2 t shift \<noteq> None"
    for dest X1 X2 t
    by (simp add: g2calc_imag_part_def g2calc_imag_part_loop_sum[OF sh])
  from average_round_spec[of g1calc_real_part 1024 tau_max shift g1calc_imag_part
      measure_ss sig bg b, OF rd1 id1, unfolded sn un d1 d2]
  obtain b1 where r1: "average_round g1calc_real_part g1calc_imag_part 1024 tau_max measure_ss
        shift sig bg b = Some b1"
    and re1: "\<forall>k < length (result_ss_real b). result_ss_real b1 ! k =
          (if measure_ss \<noteq> 0 \<and> k < unat tau_max
           then the (g1calc_real_part (result_ss_real b ! k) (1024 - tau_max) D1 D2
                  (word_of_nat k) shift)
           else result_ss_real b ! k)"
    and im1: "\<forall>k < length (result_ss_imag b). result_ss_imag b1 ! k =
          (if measure_ss \<noteq> 0 \<and> k < unat tau_max
           then the (g1calc_imag_part (result_ss_imag b ! k) (1024 - tau_max) D1 D2
                  (word_of_nat k) shift)
           else result_ss_imag b ! k)"
    by blast
  from average_round_spec[of g2calc_real_part 1024 tau_max shift g2calc_imag_part
      measure_ss sig bg b, OF rd2 id2, unfolded sn un d1 d2]
  obtain b2 where r2: "average_round g2calc_real_part g2calc_imag_part 1024 tau_max measure_ss
        shift sig bg b = Some b2"
    and re2: "\<forall>k < length (result_ss_real b). result_ss_real b2 ! k =
          (if measure_ss \<noteq> 0 \<and> k < unat tau_max
           then the (g2calc_real_part (result_ss_real b ! k) (1024 - tau_max) D1 D2
                  (word_of_nat k) shift)
           else result_ss_real b ! k)"
    and im2: "\<forall>k < length (result_ss_imag b). result_ss_imag b2 ! k =
          (if measure_ss \<noteq> 0 \<and> k < unat tau_max
           then the (g2calc_imag_part (result_ss_imag b ! k) (1024 - tau_max) D1 D2
                  (word_of_nat k) shift)
           else result_ss_imag b ! k)"
    by blast
  have g1: "g1_average_round tau_max measure_ss shift sig bg b = Some b1"
    using r1 by (simp add: g1_average_round_def G1CALC_SAMPLE_NUM_def)
  have g2: "g2_average_round tau_max measure_ss shift sig bg b = Some b2"
    using r2 by (simp add: g2_average_round_def G2CALC_SAMPLE_NUM_def)
  show "g1_average_round tau_max measure_ss shift sig bg b \<noteq> None" using g1 by simp
  show "g2_average_round tau_max measure_ss shift sig bg b \<noteq> None" using g2 by simp
  have "result_ss_real b1 ! unat tau
      = the (g1calc_real_part (result_ss_real b ! unat tau) (1024 - tau_max) D1 D2 tau shift)"
    using re1 k(1) lt ss w by simp
  then show "result_ss_real (the (g1_average_round tau_max measure_ss shift sig bg b)) ! unat tau
       = result_ss_real b ! unat tau
         + word_of_int (\<Sum>t < n. drop_bit (unat shift)
             (sint (iq_i (D1 ! t)) * sint (iq_i (D2 ! (t + unat tau)))
              + sint (iq_q (D1 ! t)) * sint (iq_q (D2 ! (t + unat tau)))))"
    unfolding g1 g1calc_real_part_exact[OF sh bd] un by simp
  have "result_ss_imag b1 ! unat tau
      = the (g1calc_imag_part (result_ss_imag b ! unat tau) (1024 - tau_max) D1 D2 tau shift)"
    using im1 k(2) lt ss w by simp
  then show "result_ss_imag (the (g1_average_round tau_max measure_ss shift sig bg b)) ! unat tau
       = result_ss_imag b ! unat tau
         + word_of_int (\<Sum>t < n. drop_bit (unat shift)
             (sint (iq_i (D1 ! t)) * sint (iq_q (D2 ! (t + unat tau)))
              - sint (iq_q (D1 ! t)) * sint (iq_i (D2 ! (t + unat tau)))))"
    unfolding g1 g1calc_imag_part_exact[OF sh bd] un by simp
  have "result_ss_real b2 ! unat tau
      = the (g2calc_real_part (result_ss_real b ! unat tau) (1024 - tau_max) D1 D2 tau shift)"
    using re2 k(1) lt ss w by simp
  then show "result_ss_real (the (g2_average_round tau_max measure_ss shift sig bg b)) ! unat tau
       = result_ss_real b ! unat tau
         + (\<Sum>t < n. signed_drop_bit (unat shift)
             (g2_real_term (D1 ! t) (D1 ! (t + unat tau)) (D2 ! (t + unat tau)) (D2 ! t)))"
    unfolding g2 g2calc_real_part_sum[OF sh bd] un by simp
  have "result_ss_imag b2 ! unat tau
      = the (g2calc_imag_part (result_ss_imag b ! unat tau) (1024 - tau_max) D1 D2 tau shift)"
    using im2 k(2) lt ss w by simp
  then show "result_ss_imag (the (g2_average_round tau_max measure_ss shift sig bg b)) ! unat tau
       = result_ss_imag b ! unat tau
         + (\<Sum>t < n. signed_drop_bit (unat shift)
             (g2_imag_term (D1 ! t) (D1 ! (t + unat tau)) (D2 ! (t + unat tau)) (D2 ! t)))"
    unfolding g2 g2calc_imag_part_sum[OF sh bd] un by simp
qed


lemma take_drop_nth:
  "length X = N \<Longrightarrow> length Y = N \<Longrightarrow> n \<le> N \<Longrightarrow> k < N \<Longrightarrow>
   (take n X @ drop n Y) ! k = (if k < n then X ! k else Y ! k)"
  by (simp add: nth_append)

lemma lag_window:
  fixes tau_max tau :: "32 word"
  assumes "tau_max < 1024" "1 \<le> tau" "tau < tau_max"
  defines "n \<equiv> 1024 - unat tau_max"
  shows "0 < n" "n \<le> 1024" "n \<le> n - 1 + unat tau" "n - 1 + unat tau < 1024" "tau_max \<le> 1024"
proof -
  have "unat tau_max < unat (1024 :: 32 word)" using assms(1) by (simp only: word_less_nat_alt)
  then have a: "unat tau_max < 1024" by simp
  have "unat (1 :: 32 word) \<le> unat tau" using assms(2) by (simp only: word_le_nat_alt)
  then have b: "1 \<le> unat tau" by simp
  have c: "unat tau < unat tau_max" using assms(3) by (simp only: word_less_nat_alt)
  show "0 < n" "n \<le> 1024" "n \<le> n - 1 + unat tau" "n - 1 + unat tau < 1024"
    using a b c by (simp_all add: n_def)
  show "tau_max \<le> 1024" using assms(1) by simp
qed

lemma g1_background_depends:
  fixes tau_max tau shift measure_ss :: "32 word"
  assumes tm: "tau_max < 1024" and t: "1 \<le> tau" "tau < tau_max" and ss: "measure_ss \<noteq> 0"
    and sh: "unat shift < 64"
  shows "\<exists>sig sig' bg b b1 b1'.
      length (fst sig) = 1024 \<and> length (snd sig) = 1024
      \<and> length (fst sig') = 1024 \<and> length (snd sig') = 1024
      \<and> length (fst bg) = 1024 \<and> length (snd bg) = 1024
      \<and> length (iq_pair_D1 b) = 1024 \<and> length (iq_pair_D2 b) = 1024
      \<and> length (result_ss_real b) = unat tau_max \<and> length (result_ss_imag b) = unat tau_max
      \<and> fst sig = fst sig' \<and> (\<forall>k < 1024 - unat tau_max. snd sig ! k = snd sig' ! k)
      \<and> g1_average_round tau_max measure_ss shift sig bg b = Some b1
      \<and> g1_average_round tau_max measure_ss shift sig' bg b = Some b1'
      \<and> result_ss_real b1 ! unat tau \<noteq> result_ss_real b1' ! unat tau"
proof -
  define n where "n = 1024 - unat tau_max"
  note w = lag_window[OF tm t, folded n_def]
  define k0 where "k0 = n - 1 + unat tau"
  define Z :: "iq_pair_raw list" where "Z = replicate 1024 \<lparr>iq_i = 0, iq_q = 0\<rparr>"
  define bg where "bg = (Z[n - 1 := \<lparr>iq_i = - 1, iq_q = 0\<rparr>], Z)"
  define sigA where "sigA = (Z, Z[k0 := \<lparr>iq_i = 1, iq_q = 0\<rparr>])"
  define sigB where "sigB = (Z, Z)"
  define b where "b = \<lparr>iq_pair_D1 = Z, iq_pair_D2 = Z, result_real = [], result_imag = [],
     result_ss_real = replicate (unat tau_max) 0, result_ss_imag = replicate (unat tau_max) 0\<rparr>"
  have lt: "unat tau < unat tau_max" using t(2) by (simp only: word_less_nat_alt)
  have lZ: "length Z = 1024" by (simp add: Z_def)
  have Zn: "Z ! k = \<lparr>iq_i = 0, iq_q = 0\<rparr>" if "k < 1024" for k using that by (simp add: Z_def)
  have lens: "length (fst sigA) = 1024" "length (snd sigA) = 1024"
    "length (fst sigB) = 1024" "length (snd sigB) = 1024"
    "length (fst bg) = 1024" "length (snd bg) = 1024"
    "length (iq_pair_D1 b) = 1024" "length (iq_pair_D2 b) = 1024"
    "length (result_ss_real b) = unat tau_max" "length (result_ss_imag b) = unat tau_max"
    by (simp_all add: sigA_def sigB_def bg_def b_def lZ)
  have D1: "(take n (fst bg) @ drop n (fst sigA)) ! k
      = (if k = n - 1 then \<lparr>iq_i = - 1, iq_q = 0\<rparr> else \<lparr>iq_i = 0, iq_q = 0\<rparr>)"
    "(take n (fst bg) @ drop n (fst sigB)) ! k
      = (if k = n - 1 then \<lparr>iq_i = - 1, iq_q = 0\<rparr> else \<lparr>iq_i = 0, iq_q = 0\<rparr>)"
    if "k < n" for k
    using that w(2) by (simp_all add: take_drop_nth[where N = 1024] lens bg_def sigA_def sigB_def
        nth_list_update lZ Zn)
  have k0: "k0 < 1024" "n \<le> k0" "\<not> k0 < n" using w by (simp_all add: k0_def)
  have D2A: "(take n (snd bg) @ drop n (snd sigA)) ! k0 = \<lparr>iq_i = 1, iq_q = 0\<rparr>"
  proof -
    have "(take n (snd bg) @ drop n (snd sigA)) ! k0 = snd sigA ! k0"
      using take_drop_nth[OF lens(6) lens(2) w(2) k0(1)] k0(3) by simp
    also have "\<dots> = \<lparr>iq_i = 1, iq_q = 0\<rparr>" using k0(1) by (simp add: sigA_def lZ)
    finally show ?thesis .
  qed
  have D2B: "(take n (snd bg) @ drop n (snd sigB)) ! k = \<lparr>iq_i = 0, iq_q = 0\<rparr>" if "k < 1024" for k
    using that w(2) by (simp add: take_drop_nth[where N = 1024] lens) (simp add: bg_def sigB_def Zn)
  have r0: "result_ss_real b ! unat tau = 0" using lt by (simp add: b_def)
  have A: "result_ss_real (the (g1_average_round tau_max measure_ss shift sigA bg b)) ! unat tau = - 1"
  proof -
    have "(\<Sum>t < n. drop_bit (unat shift)
             (sint (iq_i ((take n (fst bg) @ drop n (fst sigA)) ! t))
                * sint (iq_i ((take n (snd bg) @ drop n (snd sigA)) ! (t + unat tau)))
              + sint (iq_q ((take n (fst bg) @ drop n (fst sigA)) ! t))
                * sint (iq_q ((take n (snd bg) @ drop n (snd sigA)) ! (t + unat tau)))))
        = drop_bit (unat shift)
             (sint (iq_i ((take n (fst bg) @ drop n (fst sigA)) ! (n - 1)))
                * sint (iq_i ((take n (snd bg) @ drop n (snd sigA)) ! (n - 1 + unat tau)))
              + sint (iq_q ((take n (fst bg) @ drop n (fst sigA)) ! (n - 1)))
                * sint (iq_q ((take n (snd bg) @ drop n (snd sigA)) ! (n - 1 + unat tau))))"
      using w(1) by (intro sum_single) (simp_all add: D1)
    also have "\<dots> = - 1"
      unfolding k0_def[symmetric] D2A using w(1) by (simp add: D1)
    finally have S: "(\<Sum>t < n. drop_bit (unat shift)
             (sint (iq_i ((take n (fst bg) @ drop n (fst sigA)) ! t))
                * sint (iq_i ((take n (snd bg) @ drop n (snd sigA)) ! (t + unat tau)))
              + sint (iq_q ((take n (fst bg) @ drop n (fst sigA)) ! t))
                * sint (iq_q ((take n (snd bg) @ drop n (snd sigA)) ! (t + unat tau))))) = - 1" .
    show ?thesis
      unfolding background_round_formula(1)[OF w(5) t(2) ss sh lens(1,2,7-10), folded n_def] S r0
      by simp
  qed
  have B: "result_ss_real (the (g1_average_round tau_max measure_ss shift sigB bg b)) ! unat tau = 0"
  proof -
    have "(\<Sum>t < n. drop_bit (unat shift)
             (sint (iq_i ((take n (fst bg) @ drop n (fst sigB)) ! t))
                * sint (iq_i ((take n (snd bg) @ drop n (snd sigB)) ! (t + unat tau)))
              + sint (iq_q ((take n (fst bg) @ drop n (fst sigB)) ! t))
                * sint (iq_q ((take n (snd bg) @ drop n (snd sigB)) ! (t + unat tau)))))
        = (\<Sum>t < n. 0)"
    proof (rule sum.cong[OF refl])
      fix t assume "t \<in> {..<n}"
      then have "t + unat tau < 1024" using w(4) by simp
      then show "drop_bit (unat shift)
             (sint (iq_i ((take n (fst bg) @ drop n (fst sigB)) ! t))
                * sint (iq_i ((take n (snd bg) @ drop n (snd sigB)) ! (t + unat tau)))
              + sint (iq_q ((take n (fst bg) @ drop n (fst sigB)) ! t))
                * sint (iq_q ((take n (snd bg) @ drop n (snd sigB)) ! (t + unat tau)))) = 0"
        by (simp add: D2B)
    qed
    then have S: "(\<Sum>t < n. drop_bit (unat shift)
             (sint (iq_i ((take n (fst bg) @ drop n (fst sigB)) ! t))
                * sint (iq_i ((take n (snd bg) @ drop n (snd sigB)) ! (t + unat tau)))
              + sint (iq_q ((take n (fst bg) @ drop n (fst sigB)) ! t))
                * sint (iq_q ((take n (snd bg) @ drop n (snd sigB)) ! (t + unat tau))))) = 0"
      by simp
    show ?thesis
      unfolding background_round_formula(1)[OF w(5) t(2) ss sh lens(3,4,7-10), folded n_def] S r0
      by simp
  qed
  have same: "fst sigA = fst sigB" "\<forall>k < 1024 - unat tau_max. snd sigA ! k = snd sigB ! k"
    using w(3) by (simp_all add: sigA_def sigB_def k0_def n_def[symmetric])
  obtain bA where bA: "g1_average_round tau_max measure_ss shift sigA bg b = Some bA"
    using background_round_formula(5)[where bg = bg, OF w(5) t(2) ss sh lens(1,2,7-10)] by auto
  obtain bB where bB: "g1_average_round tau_max measure_ss shift sigB bg b = Some bB"
    using background_round_formula(5)[where bg = bg, OF w(5) t(2) ss sh lens(3,4,7-10)] by auto
  have "result_ss_real bA ! unat tau \<noteq> result_ss_real bB ! unat tau"
    using A B unfolding bA bB by simp
  then show ?thesis
    using lens same bA bB
    by (intro exI[of _ sigA] exI[of _ sigB] exI[of _ bg] exI[of _ b] exI[of _ bA] exI[of _ bB])
       simp
qed


lemma g2_real_term_zero [simp]: "g2_real_term a a' b' \<lparr>iq_i = 0, iq_q = 0\<rparr> = 0"
  by (simp add: g2_real_term_def)

lemma g2_real_term_unit [simp]:
  "g2_real_term \<lparr>iq_i = 1, iq_q = 0\<rparr> \<lparr>iq_i = 1, iq_q = 0\<rparr> b' \<lparr>iq_i = 1, iq_q = 0\<rparr>
     = scast (iq_i b')"
  by (simp add: g2_real_term_def)

lemma g2_background_depends:
  fixes tau_max tau shift measure_ss :: "32 word"
  assumes tm: "tau_max < 1024" and t: "1 \<le> tau" "tau < tau_max" and ss: "measure_ss \<noteq> 0"
    and sh: "unat shift < 64"
  shows "\<exists>sig sig' bg b b1 b1'.
      length (fst sig) = 1024 \<and> length (snd sig) = 1024
      \<and> length (fst sig') = 1024 \<and> length (snd sig') = 1024
      \<and> length (fst bg) = 1024 \<and> length (snd bg) = 1024
      \<and> length (iq_pair_D1 b) = 1024 \<and> length (iq_pair_D2 b) = 1024
      \<and> length (result_ss_real b) = unat tau_max \<and> length (result_ss_imag b) = unat tau_max
      \<and> fst sig = fst sig' \<and> (\<forall>k < 1024 - unat tau_max. snd sig ! k = snd sig' ! k)
      \<and> g2_average_round tau_max measure_ss shift sig bg b = Some b1
      \<and> g2_average_round tau_max measure_ss shift sig' bg b = Some b1'
      \<and> result_ss_real b1 ! unat tau \<noteq> result_ss_real b1' ! unat tau"
proof -
  define n where "n = 1024 - unat tau_max"
  note w = lag_window[OF tm t, folded n_def]
  define k0 where "k0 = n - 1 + unat tau"
  define Z :: "iq_pair_raw list" where "Z = replicate 1024 \<lparr>iq_i = 0, iq_q = 0\<rparr>"
  define U :: "iq_pair_raw list" where "U = replicate 1024 \<lparr>iq_i = 1, iq_q = 0\<rparr>"
  define bg where "bg = (U, Z[n - 1 := \<lparr>iq_i = 1, iq_q = 0\<rparr>])"
  define sigA where "sigA = (U, Z[k0 := \<lparr>iq_i = - 1, iq_q = 0\<rparr>])"
  define sigB where "sigB = (U, Z)"
  define b where "b = \<lparr>iq_pair_D1 = Z, iq_pair_D2 = Z, result_real = [], result_imag = [],
     result_ss_real = replicate (unat tau_max) 0, result_ss_imag = replicate (unat tau_max) 0\<rparr>"
  have lt: "unat tau < unat tau_max" using t(2) by (simp only: word_less_nat_alt)
  have lZ: "length Z = 1024" "length U = 1024" by (simp_all add: Z_def U_def)
  have Zn: "Z ! k = \<lparr>iq_i = 0, iq_q = 0\<rparr>" "U ! k = \<lparr>iq_i = 1, iq_q = 0\<rparr>" if "k < 1024" for k
    using that by (simp_all add: Z_def U_def)
  have lens: "length (fst sigA) = 1024" "length (snd sigA) = 1024"
    "length (fst sigB) = 1024" "length (snd sigB) = 1024"
    "length (fst bg) = 1024" "length (snd bg) = 1024"
    "length (iq_pair_D1 b) = 1024" "length (iq_pair_D2 b) = 1024"
    "length (result_ss_real b) = unat tau_max" "length (result_ss_imag b) = unat tau_max"
    by (simp_all add: sigA_def sigB_def bg_def b_def lZ)
  have k0: "k0 < 1024" "n \<le> k0" "\<not> k0 < n" using w by (simp_all add: k0_def)
  have D1: "(take n (fst bg) @ drop n (fst sigA)) ! k = \<lparr>iq_i = 1, iq_q = 0\<rparr>"
    "(take n (fst bg) @ drop n (fst sigB)) ! k = \<lparr>iq_i = 1, iq_q = 0\<rparr>"
    if "k < 1024" for k
    using that w(2) by (simp_all add: take_drop_nth[where N = 1024] lens)
      (simp_all add: bg_def sigA_def sigB_def Zn)
  have D2: "(take n (snd bg) @ drop n (snd sigA)) ! k
      = (if k = n - 1 then \<lparr>iq_i = 1, iq_q = 0\<rparr> else \<lparr>iq_i = 0, iq_q = 0\<rparr>)"
    "(take n (snd bg) @ drop n (snd sigB)) ! k
      = (if k = n - 1 then \<lparr>iq_i = 1, iq_q = 0\<rparr> else \<lparr>iq_i = 0, iq_q = 0\<rparr>)"
    if "k < n" for k
    using that w(2) by (simp_all add: take_drop_nth[where N = 1024] lens)
      (simp_all add: bg_def sigA_def sigB_def nth_list_update lZ Zn)
  have D2A: "(take n (snd bg) @ drop n (snd sigA)) ! k0 = \<lparr>iq_i = - 1, iq_q = 0\<rparr>"
  proof -
    have "(take n (snd bg) @ drop n (snd sigA)) ! k0 = snd sigA ! k0"
      using take_drop_nth[OF lens(6) lens(2) w(2) k0(1)] k0(3) by simp
    also have "\<dots> = \<lparr>iq_i = - 1, iq_q = 0\<rparr>" using k0(1) by (simp add: sigA_def lZ)
    finally show ?thesis .
  qed
  have D2B: "(take n (snd bg) @ drop n (snd sigB)) ! k0 = \<lparr>iq_i = 0, iq_q = 0\<rparr>"
  proof -
    have "(take n (snd bg) @ drop n (snd sigB)) ! k0 = snd sigB ! k0"
      using take_drop_nth[OF lens(6) lens(4) w(2) k0(1)] k0(3) by simp
    also have "\<dots> = \<lparr>iq_i = 0, iq_q = 0\<rparr>" using k0(1) by (simp add: sigB_def Zn)
    finally show ?thesis .
  qed
  have n1: "n - 1 < 1024" "n - 1 < n" using w(1,2) by simp_all
  have r0: "result_ss_real b ! unat tau = 0" using lt by (simp add: b_def)
  have A: "result_ss_real (the (g2_average_round tau_max measure_ss shift sigA bg b)) ! unat tau = - 1"
  proof -
    have "(\<Sum>t < n. signed_drop_bit (unat shift)
             (g2_real_term ((take n (fst bg) @ drop n (fst sigA)) ! t)
                ((take n (fst bg) @ drop n (fst sigA)) ! (t + unat tau))
                ((take n (snd bg) @ drop n (snd sigA)) ! (t + unat tau))
                ((take n (snd bg) @ drop n (snd sigA)) ! t)))
        = signed_drop_bit (unat shift)
             (g2_real_term ((take n (fst bg) @ drop n (fst sigA)) ! (n - 1))
                ((take n (fst bg) @ drop n (fst sigA)) ! (n - 1 + unat tau))
                ((take n (snd bg) @ drop n (snd sigA)) ! (n - 1 + unat tau))
                ((take n (snd bg) @ drop n (snd sigA)) ! (n - 1)))"
      using w(1) by (intro sum_single) (simp_all add: D2)
    also have "\<dots> = - 1"
      unfolding k0_def[symmetric] D2A D1(1)[OF k0(1)] D1(1)[OF n1(1)] D2(1)[OF n1(2)]
      by simp
    finally have S: "(\<Sum>t < n. signed_drop_bit (unat shift)
             (g2_real_term ((take n (fst bg) @ drop n (fst sigA)) ! t)
                ((take n (fst bg) @ drop n (fst sigA)) ! (t + unat tau))
                ((take n (snd bg) @ drop n (snd sigA)) ! (t + unat tau))
                ((take n (snd bg) @ drop n (snd sigA)) ! t))) = - 1" .
    show ?thesis
      unfolding background_round_formula(3)[OF w(5) t(2) ss sh lens(1,2,7-10), folded n_def] S r0
      by simp
  qed
  have B: "result_ss_real (the (g2_average_round tau_max measure_ss shift sigB bg b)) ! unat tau = 0"
  proof -
    have "(\<Sum>t < n. signed_drop_bit (unat shift)
             (g2_real_term ((take n (fst bg) @ drop n (fst sigB)) ! t)
                ((take n (fst bg) @ drop n (fst sigB)) ! (t + unat tau))
                ((take n (snd bg) @ drop n (snd sigB)) ! (t + unat tau))
                ((take n (snd bg) @ drop n (snd sigB)) ! t)))
        = signed_drop_bit (unat shift)
             (g2_real_term ((take n (fst bg) @ drop n (fst sigB)) ! (n - 1))
                ((take n (fst bg) @ drop n (fst sigB)) ! (n - 1 + unat tau))
                ((take n (snd bg) @ drop n (snd sigB)) ! (n - 1 + unat tau))
                ((take n (snd bg) @ drop n (snd sigB)) ! (n - 1)))"
      using w(1) by (intro sum_single) (simp_all add: D2)
    also have "\<dots> = 0"
      unfolding k0_def[symmetric] D2B D1(2)[OF k0(1)] D1(2)[OF n1(1)] D2(2)[OF n1(2)]
      by simp
    finally have S: "(\<Sum>t < n. signed_drop_bit (unat shift)
             (g2_real_term ((take n (fst bg) @ drop n (fst sigB)) ! t)
                ((take n (fst bg) @ drop n (fst sigB)) ! (t + unat tau))
                ((take n (snd bg) @ drop n (snd sigB)) ! (t + unat tau))
                ((take n (snd bg) @ drop n (snd sigB)) ! t))) = 0" .
    show ?thesis
      unfolding background_round_formula(3)[OF w(5) t(2) ss sh lens(3,4,7-10), folded n_def] S r0
      by simp
  qed
  have same: "fst sigA = fst sigB" "\<forall>k < 1024 - unat tau_max. snd sigA ! k = snd sigB ! k"
    using w(3) by (simp_all add: sigA_def sigB_def k0_def n_def[symmetric])
  obtain bA where bA: "g2_average_round tau_max measure_ss shift sigA bg b = Some bA"
    using background_round_formula(6)[where bg = bg, OF w(5) t(2) ss sh lens(1,2,7-10)] by auto
  obtain bB where bB: "g2_average_round tau_max measure_ss shift sigB bg b = Some bB"
    using background_round_formula(6)[where bg = bg, OF w(5) t(2) ss sh lens(3,4,7-10)] by auto
  have "result_ss_real bA ! unat tau \<noteq> result_ss_real bB ! unat tau"
    using A B unfolding bA bB by simp
  then show ?thesis
    using lens same bA bB
    by (intro exI[of _ sigA] exI[of _ sigB] exI[of _ bg] exI[of _ b] exI[of _ bA] exI[of _ bB])
       simp
qed


text \<open>
  Claim C10, as amended: in the direct g1 and g2 variants, when the background
  measurement is requested, \<open>0 < tau_max < 1024\<close> and the shift count is below 64 (so that
  the round is defined), the background round fetches only
  \<open>samp_num = 1024 - tau_max\<close> samples per channel, so that the channel buffers \<open>D1\<close>, \<open>D2\<close>
  hold background data below \<open>samp_num\<close> and the data of the preceding signal
  acquisition from \<open>samp_num\<close> on. The background correlation for a lag \<open>tau\<close> with
  \<open>1 \<le> tau < tau_max\<close> sums over \<open>t < samp_num\<close> and reads the entries \<open>t + tau\<close>, among
  them the index \<open>samp_num - 1 + tau \<ge> samp_num\<close>; and the background accumulator at
  \<open>tau\<close> does depend on the signal acquisition: two signal acquisitions that differ only
  at indices from \<open>samp_num\<close> on can give different background accumulators.
\<close>

theorem background_round_reads_signal_data:
  fixes tau_max tau shift measure_ss :: "32 word"
    and sig bg :: "iq_pair_raw list \<times> iq_pair_raw list"
  assumes tm: "0 < tau_max" "tau_max < 1024" and t: "1 \<le> tau" "tau < tau_max"
    and ss: "measure_ss \<noteq> 0" and sh: "unat shift < 64"
    and len: "length (fst sig) = 1024" "length (snd sig) = 1024"
      "length (fst bg) = 1024" "length (snd bg) = 1024"
      "length (iq_pair_D1 b) = 1024" "length (iq_pair_D2 b) = 1024"
      "length (result_ss_real b) = unat tau_max" "length (result_ss_imag b) = unat tau_max"
  shows "(let n = 1024 - unat tau_max;
              D1 = take n (fst bg) @ drop n (fst sig);
              D2 = take n (snd bg) @ drop n (snd sig)
          in unat (1024 - tau_max) = n
           \<and> (\<forall>k < n. D1 ! k = fst bg ! k \<and> D2 ! k = snd bg ! k)
           \<and> (\<forall>k. n \<le> k \<and> k < 1024 \<longrightarrow> D1 ! k = fst sig ! k \<and> D2 ! k = snd sig ! k)
           \<and> 0 < n \<and> n \<le> n - 1 + unat tau \<and> n - 1 + unat tau < 1024
           \<and> (\<exists>b1. g1_average_round tau_max measure_ss shift sig bg b = Some b1
               \<and> result_ss_real b1 ! unat tau
                  = result_ss_real b ! unat tau
                    + word_of_int (\<Sum>t < n. drop_bit (unat shift)
                        (sint (iq_i (D1 ! t)) * sint (iq_i (D2 ! (t + unat tau)))
                         + sint (iq_q (D1 ! t)) * sint (iq_q (D2 ! (t + unat tau)))))
               \<and> result_ss_imag b1 ! unat tau
                  = result_ss_imag b ! unat tau
                    + word_of_int (\<Sum>t < n. drop_bit (unat shift)
                        (sint (iq_i (D1 ! t)) * sint (iq_q (D2 ! (t + unat tau)))
                         - sint (iq_q (D1 ! t)) * sint (iq_i (D2 ! (t + unat tau))))))
           \<and> (\<exists>b2. g2_average_round tau_max measure_ss shift sig bg b = Some b2
               \<and> result_ss_real b2 ! unat tau
                  = result_ss_real b ! unat tau
                    + (\<Sum>t < n. signed_drop_bit (unat shift)
                        (g2_real_term (D1 ! t) (D1 ! (t + unat tau)) (D2 ! (t + unat tau)) (D2 ! t)))
               \<and> result_ss_imag b2 ! unat tau
                  = result_ss_imag b ! unat tau
                    + (\<Sum>t < n. signed_drop_bit (unat shift)
                        (g2_imag_term (D1 ! t) (D1 ! (t + unat tau)) (D2 ! (t + unat tau)) (D2 ! t)))))
     \<and> (\<exists>sig sig' bg b b1 b1'.
          length (fst sig) = 1024 \<and> length (snd sig) = 1024
          \<and> length (fst sig') = 1024 \<and> length (snd sig') = 1024
          \<and> length (fst bg) = 1024 \<and> length (snd bg) = 1024
          \<and> length (iq_pair_D1 b) = 1024 \<and> length (iq_pair_D2 b) = 1024
          \<and> length (result_ss_real b) = unat tau_max \<and> length (result_ss_imag b) = unat tau_max
          \<and> fst sig = fst sig' \<and> (\<forall>k < 1024 - unat tau_max. snd sig ! k = snd sig' ! k)
          \<and> g1_average_round tau_max measure_ss shift sig bg b = Some b1
          \<and> g1_average_round tau_max measure_ss shift sig' bg b = Some b1'
          \<and> result_ss_real b1 ! unat tau \<noteq> result_ss_real b1' ! unat tau)
     \<and> (\<exists>sig sig' bg b b1 b1'.
          length (fst sig) = 1024 \<and> length (snd sig) = 1024
          \<and> length (fst sig') = 1024 \<and> length (snd sig') = 1024
          \<and> length (fst bg) = 1024 \<and> length (snd bg) = 1024
          \<and> length (iq_pair_D1 b) = 1024 \<and> length (iq_pair_D2 b) = 1024
          \<and> length (result_ss_real b) = unat tau_max \<and> length (result_ss_imag b) = unat tau_max
          \<and> fst sig = fst sig' \<and> (\<forall>k < 1024 - unat tau_max. snd sig ! k = snd sig' ! k)
          \<and> g2_average_round tau_max measure_ss shift sig bg b = Some b1
          \<and> g2_average_round tau_max measure_ss shift sig' bg b = Some b1'
          \<and> result_ss_real b1 ! unat tau \<noteq> result_ss_real b1' ! unat tau)"
proof (intro conjI)
  note w = lag_window[OF tm(2) t]
  note f = background_round_formula[where bg = bg, OF w(5) t(2) ss sh len(1,2,5-8)]
  have un: "unat (1024 - tau_max) = 1024 - unat tau_max"
    using w(5) by (rule samp_num_unat)
  have lo: "(take (1024 - unat tau_max) (fst bg) @ drop (1024 - unat tau_max) (fst sig)) ! k
        = fst bg ! k
      \<and> (take (1024 - unat tau_max) (snd bg) @ drop (1024 - unat tau_max) (snd sig)) ! k
        = snd bg ! k" if "k < 1024 - unat tau_max" for k
    using that by (simp add: take_drop_nth[where N = 1024] len)
  have hi: "(take (1024 - unat tau_max) (fst bg) @ drop (1024 - unat tau_max) (fst sig)) ! k
        = fst sig ! k
      \<and> (take (1024 - unat tau_max) (snd bg) @ drop (1024 - unat tau_max) (snd sig)) ! k
        = snd sig ! k" if "1024 - unat tau_max \<le> k" "k < 1024" for k
    using that by (simp add: take_drop_nth[where N = 1024] len)
  obtain b1 where b1: "g1_average_round tau_max measure_ss shift sig bg b = Some b1"
    using f(5) by auto
  obtain b2 where b2: "g2_average_round tau_max measure_ss shift sig bg b = Some b2"
    using f(6) by auto
  note g = f(1-4)[unfolded b1 b2 option.sel]
  have e1: "\<exists>b1. g1_average_round tau_max measure_ss shift sig bg b = Some b1
      \<and> result_ss_real b1 ! unat tau
         = result_ss_real b ! unat tau
           + word_of_int (\<Sum>t < 1024 - unat tau_max. drop_bit (unat shift)
               (sint (iq_i ((take (1024 - unat tau_max) (fst bg) @ drop (1024 - unat tau_max) (fst sig)) ! t))
                  * sint (iq_i ((take (1024 - unat tau_max) (snd bg) @ drop (1024 - unat tau_max) (snd sig)) ! (t + unat tau)))
                + sint (iq_q ((take (1024 - unat tau_max) (fst bg) @ drop (1024 - unat tau_max) (fst sig)) ! t))
                  * sint (iq_q ((take (1024 - unat tau_max) (snd bg) @ drop (1024 - unat tau_max) (snd sig)) ! (t + unat tau)))))
      \<and> result_ss_imag b1 ! unat tau
         = result_ss_imag b ! unat tau
           + word_of_int (\<Sum>t < 1024 - unat tau_max. drop_bit (unat shift)
               (sint (iq_i ((take (1024 - unat tau_max) (fst bg) @ drop (1024 - unat tau_max) (fst sig)) ! t))
                  * sint (iq_q ((take (1024 - unat tau_max) (snd bg) @ drop (1024 - unat tau_max) (snd sig)) ! (t + unat tau)))
                - sint (iq_q ((take (1024 - unat tau_max) (fst bg) @ drop (1024 - unat tau_max) (fst sig)) ! t))
                  * sint (iq_i ((take (1024 - unat tau_max) (snd bg) @ drop (1024 - unat tau_max) (snd sig)) ! (t + unat tau)))))"
    using b1 g(1,2) by blast
  have e2: "\<exists>b2. g2_average_round tau_max measure_ss shift sig bg b = Some b2
      \<and> result_ss_real b2 ! unat tau
         = result_ss_real b ! unat tau
           + (\<Sum>t < 1024 - unat tau_max. signed_drop_bit (unat shift)
               (g2_real_term ((take (1024 - unat tau_max) (fst bg) @ drop (1024 - unat tau_max) (fst sig)) ! t)
                  ((take (1024 - unat tau_max) (fst bg) @ drop (1024 - unat tau_max) (fst sig)) ! (t + unat tau))
                  ((take (1024 - unat tau_max) (snd bg) @ drop (1024 - unat tau_max) (snd sig)) ! (t + unat tau))
                  ((take (1024 - unat tau_max) (snd bg) @ drop (1024 - unat tau_max) (snd sig)) ! t)))
      \<and> result_ss_imag b2 ! unat tau
         = result_ss_imag b ! unat tau
           + (\<Sum>t < 1024 - unat tau_max. signed_drop_bit (unat shift)
               (g2_imag_term ((take (1024 - unat tau_max) (fst bg) @ drop (1024 - unat tau_max) (fst sig)) ! t)
                  ((take (1024 - unat tau_max) (fst bg) @ drop (1024 - unat tau_max) (fst sig)) ! (t + unat tau))
                  ((take (1024 - unat tau_max) (snd bg) @ drop (1024 - unat tau_max) (snd sig)) ! (t + unat tau))
                  ((take (1024 - unat tau_max) (snd bg) @ drop (1024 - unat tau_max) (snd sig)) ! t)))"
    using b2 g(3,4) by blast
  show "let n = 1024 - unat tau_max;
              D1 = take n (fst bg) @ drop n (fst sig);
              D2 = take n (snd bg) @ drop n (snd sig)
          in unat (1024 - tau_max) = n
           \<and> (\<forall>k < n. D1 ! k = fst bg ! k \<and> D2 ! k = snd bg ! k)
           \<and> (\<forall>k. n \<le> k \<and> k < 1024 \<longrightarrow> D1 ! k = fst sig ! k \<and> D2 ! k = snd sig ! k)
           \<and> 0 < n \<and> n \<le> n - 1 + unat tau \<and> n - 1 + unat tau < 1024
           \<and> (\<exists>b1. g1_average_round tau_max measure_ss shift sig bg b = Some b1
               \<and> result_ss_real b1 ! unat tau
                  = result_ss_real b ! unat tau
                    + word_of_int (\<Sum>t < n. drop_bit (unat shift)
                        (sint (iq_i (D1 ! t)) * sint (iq_i (D2 ! (t + unat tau)))
                         + sint (iq_q (D1 ! t)) * sint (iq_q (D2 ! (t + unat tau)))))
               \<and> result_ss_imag b1 ! unat tau
                  = result_ss_imag b ! unat tau
                    + word_of_int (\<Sum>t < n. drop_bit (unat shift)
                        (sint (iq_i (D1 ! t)) * sint (iq_q (D2 ! (t + unat tau)))
                         - sint (iq_q (D1 ! t)) * sint (iq_i (D2 ! (t + unat tau))))))
           \<and> (\<exists>b2. g2_average_round tau_max measure_ss shift sig bg b = Some b2
               \<and> result_ss_real b2 ! unat tau
                  = result_ss_real b ! unat tau
                    + (\<Sum>t < n. signed_drop_bit (unat shift)
                        (g2_real_term (D1 ! t) (D1 ! (t + unat tau)) (D2 ! (t + unat tau)) (D2 ! t)))
               \<and> result_ss_imag b2 ! unat tau
                  = result_ss_imag b ! unat tau
                    + (\<Sum>t < n. signed_drop_bit (unat shift)
                        (g2_imag_term (D1 ! t) (D1 ! (t + unat tau)) (D2 ! (t + unat tau)) (D2 ! t))))"
    unfolding Let_def
    using un lo hi w(1,3,4) e1 e2 by (intro conjI allI impI) blast+
  show "\<exists>sig sig' bg b b1 b1'.
          length (fst sig) = 1024 \<and> length (snd sig) = 1024
          \<and> length (fst sig') = 1024 \<and> length (snd sig') = 1024
          \<and> length (fst bg) = 1024 \<and> length (snd bg) = 1024
          \<and> length (iq_pair_D1 b) = 1024 \<and> length (iq_pair_D2 b) = 1024
          \<and> length (result_ss_real b) = unat tau_max \<and> length (result_ss_imag b) = unat tau_max
          \<and> fst sig = fst sig' \<and> (\<forall>k < 1024 - unat tau_max. snd sig ! k = snd sig' ! k)
          \<and> g1_average_round tau_max measure_ss shift sig bg b = Some b1
          \<and> g1_average_round tau_max measure_ss shift sig' bg b = Some b1'
          \<and> result_ss_real b1 ! unat tau \<noteq> result_ss_real b1' ! unat tau"
    using tm(2) t ss sh by (rule g1_background_depends)
  show "\<exists>sig sig' bg b b1 b1'.
          length (fst sig) = 1024 \<and> length (snd sig) = 1024
          \<and> length (fst sig') = 1024 \<and> length (snd sig') = 1024
          \<and> length (fst bg) = 1024 \<and> length (snd bg) = 1024
          \<and> length (iq_pair_D1 b) = 1024 \<and> length (iq_pair_D2 b) = 1024
          \<and> length (result_ss_real b) = unat tau_max \<and> length (result_ss_imag b) = unat tau_max
          \<and> fst sig = fst sig' \<and> (\<forall>k < 1024 - unat tau_max. snd sig ! k = snd sig' ! k)
          \<and> g2_average_round tau_max measure_ss shift sig bg b = Some b1
          \<and> g2_average_round tau_max measure_ss shift sig' bg b = Some b1'
          \<and> result_ss_real b1 ! unat tau \<noteq> result_ss_real b1' ! unat tau"
    using tm(2) t ss sh by (rule g2_background_depends)
qed


theorem background_round_reads_signal_data_witness:
  "\<exists>b1. g1_average_round 1023 1 0
      (replicate 1024 \<lparr>iq_i = 0, iq_q = 0\<rparr>, replicate 1024 \<lparr>iq_i = 1, iq_q = 0\<rparr>)
      (replicate 1024 \<lparr>iq_i = - 1, iq_q = 0\<rparr>, replicate 1024 \<lparr>iq_i = 0, iq_q = 0\<rparr>)
      \<lparr>iq_pair_D1 = replicate 1024 \<lparr>iq_i = 0, iq_q = 0\<rparr>,
       iq_pair_D2 = replicate 1024 \<lparr>iq_i = 0, iq_q = 0\<rparr>,
       result_real = replicate 1023 0, result_imag = replicate 1023 0,
       result_ss_real = replicate 1023 0, result_ss_imag = replicate 1023 0\<rparr> = Some b1
     \<and> result_ss_real b1 ! 1 = - 1"
proof -
  have s: "{..<(1::nat)} = {0}" by auto
  show ?thesis
    using background_round_reads_signal_data[where tau_max = 1023 and tau = 1
      and measure_ss = 1 and shift = 0
      and sig = "(replicate 1024 \<lparr>iq_i = 0, iq_q = 0\<rparr>, replicate 1024 \<lparr>iq_i = 1, iq_q = 0\<rparr>)"
      and bg = "(replicate 1024 \<lparr>iq_i = - 1, iq_q = 0\<rparr>, replicate 1024 \<lparr>iq_i = 0, iq_q = 0\<rparr>)"
      and b = "\<lparr>iq_pair_D1 = replicate 1024 \<lparr>iq_i = 0, iq_q = 0\<rparr>,
       iq_pair_D2 = replicate 1024 \<lparr>iq_i = 0, iq_q = 0\<rparr>,
       result_real = replicate 1023 0, result_imag = replicate 1023 0,
       result_ss_real = replicate 1023 0, result_ss_imag = replicate 1023 0\<rparr>",
      THEN conjunct1]
    by (auto simp add: Let_def s nth_append)
qed

section \<open>Proofs: the ring-buffer drain tasks\<close>

declare drain_copy.simps [simp del]

lemma hw_bram_length: "length (hw_bram ws W) = MAX_ADDR"
proof -
  have "length (foldl (\<lambda>mem k. mem[k mod MAX_ADDR := ws k]) m ks) = length m" for m ks
    by (induction ks arbitrary: m) simp_all
  thus ?thesis by (simp add: hw_bram_def)
qed

lemma hw_bram_Suc: "hw_bram ws (Suc W) = (hw_bram ws W)[W mod MAX_ADDR := ws W]"
  by (simp add: hw_bram_def)

lemma mod_neq_near:
  assumes "k < W" "W < k + (M::nat)"
  shows "W mod M \<noteq> k mod M"
proof
  assume e: "W mod M = k mod M"
  hence "M dvd (W - k)" using assms(1) by (simp add: mod_eq_dvd_iff_nat)
  moreover have "0 < W - k" "W - k < M" using assms by auto
  ultimately show False by (auto dest: dvd_imp_le)
qed

lemma hw_bram_recent:
  "k < W \<Longrightarrow> W \<le> k + MAX_ADDR \<Longrightarrow> hw_bram ws W ! (k mod MAX_ADDR) = ws k"
proof (induction W)
  case 0
  then show ?case by simp
next
  case (Suc W)
  have M: "0 < MAX_ADDR" by (simp add: MAX_ADDR_def)
  show ?case
  proof (cases "k = W")
    case True
    then show ?thesis using M by (simp add: hw_bram_Suc hw_bram_length)
  next
    case False
    hence kW: "k < W" using Suc.prems by simp
    have "W < k + MAX_ADDR" using Suc.prems by simp
    from mod_neq_near[OF kW this] have "W mod MAX_ADDR \<noteq> k mod MAX_ADDR" .
    moreover have "hw_bram ws W ! (k mod MAX_ADDR) = ws k"
      using Suc.IH kW Suc.prems by simp
    ultimately show ?thesis by (simp add: hw_bram_Suc)
  qed
qed

lemma unat_succ_bounded:
  fixes count :: "32 word"
  assumes "unat count < n" "n < 2 ^ 32"
  shows "unat (count + 1) = Suc (unat count)"
proof -
  have "unat count + unat (1 :: 32 word) < 2 ^ LENGTH(32)" using assms by simp
  then have "unat (count + 1) = unat count + unat (1 :: 32 word)" by (simp only: unat_add_lem)
  then show ?thesis by simp
qed

lemma drain_copy_spec:
  assumes "unat count = c" "c + (hi - i) \<le> length states" "length states < 2 ^ 32"
  shows "\<exists>st'. drain_copy ws V W i hi states count = Some (st', word_of_nat (c + (hi - i)))
           \<and> length st' = length states
           \<and> (\<forall>j<length states. st' ! j =
                 (if c \<le> j \<and> j < c + (hi - i)
                  then hw_bram ws (max W (V j)) ! (i + (j - c)) else states ! j))"
  using assms
proof (induction ws V W i hi states count arbitrary: c rule: drain_copy.induct)
  case (1 ws V W i hi states count)
  show ?case
  proof (cases "i < hi")
    case False
    have "word_of_nat c = count" using "1.prems"(1) by auto
    thus ?thesis using False by (auto simp add: drain_copy.simps[of ws V W i hi])
  next
    case True
    hence lt: "unat count < length states" using "1.prems" by simp
    have u: "unat (count + 1) = Suc c"
      using unat_succ_bounded[OF lt "1.prems"(3)] "1.prems"(1) by simp
    let ?st = "states[unat count := hw_bram ws (max W (V (unat count))) ! i]"
    have len: "length ?st = length states" by simp
    have b: "Suc c + (hi - (i + 1)) \<le> length ?st" using "1.prems" True by simp
    have l: "length ?st < 2 ^ 32" using "1.prems" by simp
    from "1.IH"[OF True lt u b l] obtain st' where
      st: "drain_copy ws V W (i + 1) hi ?st (count + 1)
             = Some (st', word_of_nat (Suc c + (hi - (i + 1))))"
      and len': "length st' = length ?st"
      and nth: "\<forall>j<length ?st. st' ! j =
                 (if Suc c \<le> j \<and> j < Suc c + (hi - (i + 1))
                  then hw_bram ws (max W (V j)) ! (i + 1 + (j - Suc c)) else ?st ! j)"
      by blast
    have e: "Suc c + (hi - (i + 1)) = c + (hi - i)" using True by simp
    have d: "drain_copy ws V W i hi states count = Some (st', word_of_nat (c + (hi - i)))"
      using st True lt unfolding e by (simp add: drain_copy.simps[of ws V W i hi states])
    have "st' ! j = (if c \<le> j \<and> j < c + (hi - i)
                     then hw_bram ws (max W (V j)) ! (i + (j - c)) else states ! j)"
      if j: "j < length states" for j
    proof (cases "j = c")
      case True
      have "st' ! c = ?st ! c" using nth j True by simp
      moreover have "c < c + (hi - i)" using \<open>i < hi\<close> by simp
      ultimately show ?thesis using True j "1.prems"(1) by (simp del: Nat.add_diff_assoc)
    next
      case False
      have "i + 1 + (j - Suc c) = i + (j - c)" if "Suc c \<le> j" using that by simp
      then show ?thesis using nth j False "1.prems"(1) unfolding e by auto
    qed
    then show ?thesis using d len' by simp
  qed
qed

lemma mod_add_small:
  fixes a d M :: nat
  assumes "a mod M + d < M"
  shows "(a + d) mod M = a mod M + d"
proof -
  have "(a + d) mod M = (a mod M + d) mod M" by (simp add: mod_add_left_eq)
  then show ?thesis using assms by simp
qed

lemma mod_advance:
  fixes W0 W M :: nat
  assumes "W0 \<le> W" "W - W0 < M"
  shows "(W0 mod M + (W - W0) < M \<and> W mod M = W0 mod M + (W - W0)) \<or>
         (M \<le> W0 mod M + (W - W0) \<and> W mod M + M = W0 mod M + (W - W0))"
proof -
  define d where "d = W - W0"
  have W: "W = W0 + d" using assms by (simp add: d_def)
  have M: "0 < M" using assms by simp
  have r: "W0 mod M < M" using M by simp
  have e: "W mod M = (W0 mod M + d) mod M" unfolding W by (simp add: mod_add_left_eq)
  show ?thesis
  proof (cases "W0 mod M + d < M")
    case True
    then show ?thesis using e by (simp add: d_def)
  next
    case False
    hence ge: "M \<le> W0 mod M + d" by simp
    have dM: "d < M" using assms by (simp add: d_def)
    have "W0 mod M + d - M < M" using r dM by linarith
    hence "(W0 mod M + d - M) mod M = W0 mod M + d - M" by simp
    hence "W mod M = W0 mod M + d - M" using e ge by (simp add: le_mod_geq)
    then show ?thesis using ge by (simp add: d_def)
  qed
qed

lemma copied_in_time_iff: "copied_in_time V W \<longleftrightarrow> (\<forall>c<W. V c \<le> c + MAX_ADDR)"
  by (auto simp add: copied_in_time_def list_all_iff)

lemma drain_copy_segment:
  assumes c: "unat count = W0" and len: "length states = n"
    and pre: "take W0 states = map ws [0..<W0]"
    and lo: "W0 mod MAX_ADDR \<le> hi" and hi: "hi \<le> MAX_ADDR"
    and W1: "W1 = W0 + (hi - W0 mod MAX_ADDR)"
    and W1W: "W1 \<le> W" and near: "W \<le> W0 + MAX_ADDR"
    and time: "\<forall>j. W0 \<le> j \<and> j < W1 \<longrightarrow> V j \<le> j + MAX_ADDR"
    and Wn: "W \<le> n" and n: "n < 2 ^ 32"
  shows "\<exists>st'. drain_copy ws V W (W0 mod MAX_ADDR) hi states count =
                  Some (st', word_of_nat W1)
           \<and> length st' = n \<and> take W1 st' = map ws [0..<W1]"
proof -
  let ?L = "W0 mod MAX_ADDR"
  have b: "W0 + (hi - ?L) \<le> length states" using W1 W1W Wn len by simp
  have l: "length states < 2 ^ 32" using len n by simp
  from drain_copy_spec[where ws = ws and V = V and W = W, OF c b l] obtain st' where
    d: "drain_copy ws V W ?L hi states count = Some (st', word_of_nat (W0 + (hi - ?L)))"
    and len': "length st' = length states"
    and nth: "\<forall>j<length states. st' ! j =
               (if W0 \<le> j \<and> j < W0 + (hi - ?L)
                then hw_bram ws (max W (V j)) ! (?L + (j - W0)) else states ! j)"
    by blast
  have W0le: "W0 \<le> W1" using W1 by simp
  have "st' ! j = ws j" if j: "j < W1" for j
  proof (cases "j < W0")
    case True
    have "st' ! j = states ! j" using nth j True W1W Wn len by simp
    also have "\<dots> = take W0 states ! j" using True by simp
    also have "\<dots> = map ws [0..<W0] ! j" using pre by simp
    also have "\<dots> = ws j" using True by simp
    finally show ?thesis .
  next
    case False
    hence ge: "W0 \<le> j" by simp
    have jl: "j < length states" using j W1W Wn len by simp
    have in_seg: "j < W0 + (hi - ?L)" using j W1 by simp
    have "st' ! j =
            (if W0 \<le> j \<and> j < W0 + (hi - ?L)
             then hw_bram ws (max W (V j)) ! (?L + (j - W0)) else states ! j)"
      using nth jl by blast
    hence s: "st' ! j = hw_bram ws (max W (V j)) ! (?L + (j - W0))"
      by (simp only: ge in_seg simp_thms if_True)
    have "?L + (j - W0) < MAX_ADDR" using in_seg ge lo hi by simp
    hence "(W0 + (j - W0)) mod MAX_ADDR = ?L + (j - W0)" by (rule mod_add_small)
    hence m: "j mod MAX_ADDR = ?L + (j - W0)" using ge by simp
    have written: "j < max W (V j)" using j W1W by simp
    have kept: "max W (V j) \<le> j + MAX_ADDR" using time ge j near by simp
    have "hw_bram ws (max W (V j)) ! (j mod MAX_ADDR) = ws j"
      using written kept by (rule hw_bram_recent)
    then show ?thesis using s m by simp
  qed
  moreover have "length (take W1 st') = W1" using len' len W1W Wn by simp
  ultimately have "take W1 st' = map ws [0..<W1]" by (intro nth_equalityI) simp_all
  then show ?thesis using d len' len W1 by simp
qed

lemma unat_hw_next_address: "unat (hw_next_address W) = W mod MAX_ADDR"
proof -
  have "W mod MAX_ADDR < 1024" by (simp add: MAX_ADDR_def)
  hence "W mod MAX_ADDR < 2 ^ LENGTH(32)" by simp
  then show ?thesis unfolding hw_next_address_def by (simp add: unat_of_nat)
qed

lemma unat_count_of_nat:
  assumes "W \<le> n" "n < 2 ^ 32"
  shows "unat (word_of_nat W :: 32 word) = W"
proof -
  have "W < 2 ^ LENGTH(32)" using assms by simp
  then show ?thesis by (simp add: unat_of_nat)
qed


lemma drain_poll_idle:
  "hw_next_address W = d_last_addr s \<Longrightarrow> drain_poll ws V W s = Some s"
  by (simp add: drain_poll_def)

lemma drain_poll_step:
  assumes inv: "drained ws n W0 s"
    and adv: "W0 \<le> W" "W - W0 < MAX_ADDR"
    and time: "\<forall>j. W0 \<le> j \<and> j < W \<longrightarrow> V j \<le> j + MAX_ADDR"
    and Wn: "W \<le> n" and n: "n < 2 ^ 32"
  shows "\<exists>s'. drain_poll ws V W s = Some s' \<and> drained ws n W s'"
proof -
  let ?L = "W0 mod MAX_ADDR"
  let ?N = "W mod MAX_ADDR"
  have c: "unat (d_count s) = W0" and la: "d_last_addr s = hw_next_address W0"
    and len: "length (d_states s) = n" and pre: "take W0 (d_states s) = map ws [0..<W0]"
    using inv by (simp_all add: drained_def)
  have uL: "unat (d_last_addr s) = ?L" using la by (simp add: unat_hw_next_address)
  have uN: "unat (hw_next_address W) = ?N" by (rule unat_hw_next_address)
  have near: "W \<le> W0 + MAX_ADDR" using adv by simp
  have N: "?N < MAX_ADDR" and L: "?L < MAX_ADDR" by (simp_all add: MAX_ADDR_def)
  note ma = mod_advance[OF adv]
  consider (wrap) "?N < ?L" | (more) "?L < ?N" | (same) "?N = ?L" by linarith
  then show ?thesis
  proof cases
    case same
    hence "W = W0" using ma adv by linarith
    moreover have "hw_next_address W = d_last_addr s" using la same by (simp add: hw_next_address_def)
    ultimately show ?thesis using inv by (simp add: drain_poll_idle)
  next
    case more
    hence W: "W = W0 + (?N - ?L)" using ma adv by linarith
    have lt: "d_last_addr s < hw_next_address W" using more uL uN by (simp add: word_less_nat_alt)
    hence nlt: "\<not> hw_next_address W < d_last_addr s" by simp
    have lo: "?L \<le> ?N" using more by simp
    have hi: "?N \<le> MAX_ADDR" using N by simp
    from drain_copy_segment[where V = V, OF c len pre lo hi W order_refl near time Wn n]
    obtain st' where
      d: "drain_copy ws V W ?L ?N (d_states s) (d_count s) = Some (st', word_of_nat W)"
      and len': "length st' = n" and tk: "take W st' = map ws [0..<W]"
      by blast
    let ?s' = "s\<lparr>d_states := st', d_count := word_of_nat W, d_last_addr := hw_next_address W\<rparr>"
    have "drain_poll ws V W s = Some ?s'"
      using d lt nlt uL uN by (simp add: drain_poll_def)
    moreover have "drained ws n W ?s'"
      using len' tk unat_count_of_nat[OF Wn n] by (simp add: drained_def)
    ultimately show ?thesis by blast
  next
    case wrap
    define W1 where "W1 = W0 + (MAX_ADDR - ?L)"
    have W: "W = W1 + ?N" unfolding W1_def using ma adv wrap L by linarith
    have W1W: "W1 \<le> W" using W by simp
    have W1n: "W1 \<le> n" using W1W Wn by simp
    have lt: "hw_next_address W < d_last_addr s" using wrap uL uN by (simp add: word_less_nat_alt)
    have lo: "?L \<le> MAX_ADDR" using L by simp
    have time1: "\<forall>j. W0 \<le> j \<and> j < W1 \<longrightarrow> V j \<le> j + MAX_ADDR" using time W1W by simp
    from drain_copy_segment[where V = V, OF c len pre lo order_refl W1_def W1W near time1 Wn n]
    obtain st1 where
      d1: "drain_copy ws V W ?L MAX_ADDR (d_states s) (d_count s) = Some (st1, word_of_nat W1)"
      and len1: "length st1 = n" and tk1: "take W1 st1 = map ws [0..<W1]"
      by blast
    let ?s1 = "s\<lparr>d_states := st1, d_count := word_of_nat W1, d_last_addr := 0\<rparr>"
    have c1: "unat (word_of_nat W1 :: 32 word) = W1" by (rule unat_count_of_nat[OF W1n n])
    have W1m: "W1 mod MAX_ADDR = 0"
    proof -
      have "W1 mod MAX_ADDR = (?L + (MAX_ADDR - ?L)) mod MAX_ADDR"
        unfolding W1_def by (simp only: mod_add_left_eq)
      also have "?L + (MAX_ADDR - ?L) = MAX_ADDR" using L by simp
      finally show ?thesis by simp
    qed
    show ?thesis
    proof (cases "?N = 0")
      case True
      hence WW1: "W = W1" using W by simp
      have h0: "hw_next_address W = 0" using True by (simp add: hw_next_address_def)
      have "drain_poll ws V W s = Some ?s1"
        using d1 lt uL h0 by (simp add: drain_poll_def)
      moreover have "drained ws n W ?s1"
        using len1 tk1 c1 h0 WW1 by (simp add: drained_def)
      ultimately show ?thesis by blast
    next
      case False
      hence gt: "(0 :: 32 word) < hw_next_address W" using uN by (simp add: word_less_nat_alt)
      have near1: "W \<le> W1 + MAX_ADDR" using W N by simp
      have W': "W = W1 + (?N - W1 mod MAX_ADDR)" using W W1m by simp
      have lo2: "W1 mod MAX_ADDR \<le> ?N" using W1m by simp
      have hi2: "?N \<le> MAX_ADDR" using N by simp
      have time2: "\<forall>j. W1 \<le> j \<and> j < W \<longrightarrow> V j \<le> j + MAX_ADDR"
        using time by (simp add: W1_def)
      from drain_copy_segment[where V = V, OF c1 len1 tk1 lo2 hi2 W' order_refl near1 time2 Wn n]
      obtain st2 where
        d2: "drain_copy ws V W 0 ?N st1 (word_of_nat W1) = Some (st2, word_of_nat W)"
        and len2: "length st2 = n" and tk2: "take W st2 = map ws [0..<W]"
        unfolding W1m by blast
      let ?s2 = "s\<lparr>d_states := st2, d_count := word_of_nat W, d_last_addr := hw_next_address W\<rparr>"
      have "drain_poll ws V W s = Some ?s2"
        using d1 d2 lt gt uL uN by (simp add: drain_poll_def)
      moreover have "drained ws n W ?s2"
        using len2 tk2 unat_count_of_nat[OF Wn n] by (simp add: drained_def)
      ultimately show ?thesis by blast
    qed
  qed
qed

lemma poll_advances_last: "poll_advances B W0 (pre @ [(b, W)]) \<Longrightarrow> W0 \<le> W"
proof (induction pre arbitrary: W0)
  case Nil
  then show ?case by simp
next
  case (Cons p pre)
  obtain b' W' where p: "p = (b', W')" by (cases p)
  from Cons.prems have "W0 \<le> W'" "poll_advances B W' (pre @ [(b, W)])" by (simp_all add: p)
  with Cons.IH show ?case by fastforce
qed

lemma drain_loop_drained:
  assumes "drained ws n W0 s"
    and "poll_advances MAX_ADDR W0 (map (Pair True) Ws @ [(False, W)])"
    and time: "\<forall>j. W0 \<le> j \<and> j < W \<longrightarrow> V j \<le> j + MAX_ADDR"
    and "W \<le> n" "n < 2 ^ 32"
  shows "\<exists>s' tr'. drain_loop ws V (map (Pair True) Ws @ [(False, W)]) s tr = Some (s', tr')
           \<and> drained ws n W s'"
  using assms(1,2,3)
proof (induction Ws arbitrary: W0 s tr)
  case Nil
  hence adv: "W0 \<le> W" "W - W0 < MAX_ADDR" by simp_all
  from drain_poll_step[OF Nil(1) adv Nil(3) assms(4,5)] show ?case by auto
next
  case (Cons W1 Ws)
  hence adv: "W0 \<le> W1" "W1 - W0 < MAX_ADDR"
    and rest: "poll_advances MAX_ADDR W1 (map (Pair True) Ws @ [(False, W)])" by simp_all
  have W1W: "W1 \<le> W" using rest by (rule poll_advances_last)
  have b: "W1 \<le> n" using W1W assms(4) by simp
  have t1: "\<forall>j. W0 \<le> j \<and> j < W1 \<longrightarrow> V j \<le> j + MAX_ADDR" using Cons.prems(3) W1W by simp
  have t2: "\<forall>j. W1 \<le> j \<and> j < W \<longrightarrow> V j \<le> j + MAX_ADDR" using Cons.prems(3) adv(1) by simp
  from drain_poll_step[OF Cons.prems(1) adv t1 b assms(5)] obtain s1 where
    p: "drain_poll ws V W1 s = Some s1" and d: "drained ws n W1 s1"
    by blast
  from Cons.IH[OF d rest t2] show ?case using p by simp
qed

lemma drain_loop_trace:
  "drain_loop ws V polls s tr = Some (s', tr') \<Longrightarrow>
     filter is_error_report tr' = filter is_error_report tr \<and>
     filter is_box_release tr' = filter is_box_release tr"
proof (induction ws V polls s tr rule: drain_loop.induct)
  case (1 ws V s tr)
  then show ?case by simp
next
  case (2 ws V busy W polls s tr)
  from "2.prems" obtain s1 where
    p: "drain_poll ws V W s = Some s1"
    by (auto split: option.splits)
  let ?tr = "tr @ [Seq_is_busy, Stg_get_next_address, Rtos_SetProgress (d_count s1 * 10)]"
  show ?case
  proof (cases busy)
    case True
    hence "drain_loop ws V polls s1 ?tr = Some (s', tr')" using "2.prems" p by simp
    from "2.IH"[OF p refl True this] show ?thesis by simp
  next
    case False
    hence "tr' = ?tr" using "2.prems" p by auto
    then show ?thesis by simp
  qed
qed

lemma drained_init: "drained ws n 0 \<lparr>d_states = replicate n 0, d_last_addr = 0, d_count = 0\<rparr>"
  by (simp add: drained_def hw_next_address_def)

lemma hw_next_address_one: "hw_next_address (Suc 0) = 1"
  by (simp add: hw_next_address_def MAX_ADDR_def)

lemma drain_poll_one_word:
  "drain_poll ws V (Suc 0) \<lparr>d_states = 0 # st, d_last_addr = 0, d_count = 0\<rparr> =
     Some \<lparr>d_states = hw_bram ws (max (Suc 0) (V 0)) ! 0 # st, d_last_addr = 1, d_count = 1\<rparr>"
  by (simp add: drain_poll_def Let_def hw_next_address_one
        drain_copy.simps[of _ _ _ 0 "Suc 0"] drain_copy.simps[of _ _ _ "Suc 0" "Suc 0"])

lemma hw_bram_first: "hw_bram ws (Suc 0) ! 0 = ws 0"
  by (simp add: hw_bram_def MAX_ADDR_def)

text \<open>
  The drain loop of quantum\_jumps\_multi.c drains every cell as the loop of
  quantum\_jumps\_new.c drains its one cell: under the same conditions on the producer of
  each cell, every cell's data box ends up with the words its producer wrote.
\<close>

lemma multi_drain_cells_step:
  assumes "length wss = length ss" "length Vs = length ss" "length Ws = length ss"
    "length W0s = length ss"
    and "\<forall>c<length ss. drained (wss ! c) n (W0s ! c) (ss ! c) \<and> W0s ! c \<le> Ws ! c \<and>
           Ws ! c - W0s ! c < MAX_ADDR \<and> Ws ! c \<le> n \<and>
           (\<forall>j. W0s ! c \<le> j \<and> j < Ws ! c \<longrightarrow> (Vs ! c) j \<le> j + MAX_ADDR)"
    and n: "n < 2 ^ 32"
  shows "\<exists>ss'. multi_drain_cells wss Vs Ws ss = Some ss' \<and> length ss' = length ss \<and>
           (\<forall>c<length ss. drained (wss ! c) n (Ws ! c) (ss' ! c))"
  using assms(1-5)
proof (induction ss arbitrary: wss Vs Ws W0s)
  case Nil
  then show ?case by simp
next
  case (Cons s ss)
  from Cons.prems(1-4) obtain ws wss' V Vs' W Ws' W0 W0s' where
    e: "wss = ws # wss'" "Vs = V # Vs'" "Ws = W # Ws'" "W0s = W0 # W0s'"
    and l: "length wss' = length ss" "length Vs' = length ss" "length Ws' = length ss"
      "length W0s' = length ss"
    by (auto simp add: length_Suc_conv)
  from Cons.prems(5) have h0: "drained ws n W0 s" "W0 \<le> W" "W - W0 < MAX_ADDR" "W \<le> n"
    "\<forall>j. W0 \<le> j \<and> j < W \<longrightarrow> V j \<le> j + MAX_ADDR" unfolding e by auto
  from Cons.prems(5) have hs: "\<forall>c<length ss. drained (wss' ! c) n (W0s' ! c) (ss ! c) \<and>
      W0s' ! c \<le> Ws' ! c \<and> Ws' ! c - W0s' ! c < MAX_ADDR \<and> Ws' ! c \<le> n \<and>
      (\<forall>j. W0s' ! c \<le> j \<and> j < Ws' ! c \<longrightarrow> (Vs' ! c) j \<le> j + MAX_ADDR)"
    unfolding e by fastforce
  from drain_poll_step[OF h0(1-3) h0(5) h0(4) n] obtain s' where
    p: "drain_poll ws V W s = Some s'" and d: "drained ws n W s'"
    by blast
  from Cons.IH[OF l hs] obtain ss' where
    m: "multi_drain_cells wss' Vs' Ws' ss = Some ss'" and len: "length ss' = length ss"
    and ds: "\<forall>c<length ss. drained (wss' ! c) n (Ws' ! c) (ss' ! c)" by blast
  have "multi_drain_cells wss Vs Ws (s # ss) = Some (s' # ss')" unfolding e using p m by simp
  moreover have "\<forall>c<length (s # ss). drained (wss ! c) n (Ws ! c) ((s' # ss') ! c)"
    unfolding e using d ds by (auto simp add: nth_Cons split: nat.splits)
  ultimately show ?case using len by simp
qed

lemma cell_polls_run:
  "cell_polls c (map (Pair True) Wss @ [(False, W)]) =
     map (Pair True) (map (\<lambda>Ws. Ws ! c) Wss) @ [(False, W ! c)]"
  by (simp add: cell_polls_def)

lemma multi_drain_loop_drained:
  assumes "length wss = k" "length Vs = k" "length ss = k" "length W0s = k"
    and "\<forall>c<k. drained (wss ! c) n (W0s ! c) (ss ! c)"
    and "\<forall>c<k. poll_advances MAX_ADDR (W0s ! c) (cell_polls c (map (Pair True) Wss @ [(False, W)]))"
    and "\<forall>Ws\<in>set Wss. length Ws = k" and lW: "length W = k"
    and fin: "\<forall>c<k. W ! c \<le> n"
    and time: "\<forall>c<k. \<forall>j<W ! c. (Vs ! c) j \<le> j + MAX_ADDR"
    and n: "n < 2 ^ 32"
  shows "\<exists>ss'. multi_drain_loop wss Vs (map (Pair True) Wss @ [(False, W)]) ss = Some ss' \<and>
           length ss' = k \<and> (\<forall>c<k. drained (wss ! c) n (W ! c) (ss' ! c))"
  using assms(3-7)
proof (induction Wss arbitrary: ss W0s)
  case Nil
  have "\<forall>c<length ss. drained (wss ! c) n (W0s ! c) (ss ! c) \<and> W0s ! c \<le> W ! c \<and>
           W ! c - W0s ! c < MAX_ADDR \<and> W ! c \<le> n \<and>
           (\<forall>j. W0s ! c \<le> j \<and> j < W ! c \<longrightarrow> (Vs ! c) j \<le> j + MAX_ADDR)"
    using Nil.prems fin time by (simp add: cell_polls_def)
  from multi_drain_cells_step[OF _ _ _ _ this n] assms(1,2) lW Nil.prems(1,2)
  obtain ss' where "multi_drain_cells wss Vs W ss = Some ss'" "length ss' = length ss"
    "\<forall>c<length ss. drained (wss ! c) n (W ! c) (ss' ! c)" by auto
  then show ?case using Nil.prems(1) by simp
next
  case (Cons W1 Wss)
  have lW1: "length W1 = k" and lWss: "\<forall>Ws\<in>set Wss. length Ws = k" using Cons.prems(5) by simp_all
  have adv: "W0s ! c \<le> W1 ! c \<and> W1 ! c - W0s ! c < MAX_ADDR \<and>
             poll_advances MAX_ADDR (W1 ! c) (cell_polls c (map (Pair True) Wss @ [(False, W)]))"
    if "c < k" for c
    using Cons.prems(4) that by (simp add: cell_polls_def)
  have le: "W1 ! c \<le> W ! c" if "c < k" for c
    using adv[OF that] unfolding cell_polls_run by (auto dest: poll_advances_last)
  have "\<forall>c<length ss. drained (wss ! c) n (W0s ! c) (ss ! c) \<and> W0s ! c \<le> W1 ! c \<and>
           W1 ! c - W0s ! c < MAX_ADDR \<and> W1 ! c \<le> n \<and>
           (\<forall>j. W0s ! c \<le> j \<and> j < W1 ! c \<longrightarrow> (Vs ! c) j \<le> j + MAX_ADDR)"
  proof (intro allI impI)
    fix c assume "c < length ss"
    hence c: "c < k" using Cons.prems(1) by simp
    have b: "W1 ! c \<le> n" using le[OF c] fin c by fastforce
    have t: "\<forall>j. W0s ! c \<le> j \<and> j < W1 ! c \<longrightarrow> (Vs ! c) j \<le> j + MAX_ADDR"
      using time c le[OF c] by fastforce
    show "drained (wss ! c) n (W0s ! c) (ss ! c) \<and> W0s ! c \<le> W1 ! c \<and>
           W1 ! c - W0s ! c < MAX_ADDR \<and> W1 ! c \<le> n \<and>
           (\<forall>j. W0s ! c \<le> j \<and> j < W1 ! c \<longrightarrow> (Vs ! c) j \<le> j + MAX_ADDR)"
      using Cons.prems(3) adv[OF c] c b t by simp
  qed
  from multi_drain_cells_step[OF _ _ _ _ this n] assms(1,2) lW1 Cons.prems(1,2)
  obtain ss1 where m: "multi_drain_cells wss Vs W1 ss = Some ss1" and l1: "length ss1 = k"
    and d1: "\<forall>c<k. drained (wss ! c) n (W1 ! c) (ss1 ! c)" by auto
  have a1: "\<forall>c<k. poll_advances MAX_ADDR (W1 ! c) (cell_polls c (map (Pair True) Wss @ [(False, W)]))"
    using adv by simp
  from Cons.IH[OF l1 lW1 d1 a1 lWss] show ?case using m by simp
qed

lemma multi_drain_loop_exact:
  fixes k :: "32 word"
  assumes lV: "length Vs = length wss"
    and adv: "\<forall>c<length wss.
             poll_advances MAX_ADDR 0 (cell_polls c (map (Pair True) Wss @ [(False, W)]))"
    and lWss: "\<forall>Ws\<in>set Wss. length Ws = length wss" and lW: "length W = length wss"
    and time: "\<forall>c<length wss. copied_in_time (Vs ! c) (W ! c)"
    and fin: "\<forall>c<length wss. W ! c \<le> unat k"
  shows "\<exists>ss. multi_drain_loop wss Vs (map (Pair True) Wss @ [(False, W)])
                 (replicate (length wss)
                    \<lparr>d_states = replicate (unat k) 0, d_last_addr = 0, d_count = 0\<rparr>)
               = Some ss \<and>
              length ss = length wss \<and>
              (\<forall>c<length wss. unat (d_count (ss ! c)) = W ! c \<and>
                               take (W ! c) (d_states (ss ! c)) = map (wss ! c) [0..<W ! c])"
proof -
  let ?k = "length wss"
  let ?s0 = "\<lparr>d_states = replicate (unat k) 0, d_last_addr = 0, d_count = 0\<rparr>"
  have "unat k < 2 ^ LENGTH(32)" by (rule unsigned_less)
  then have n: "unat k < 2 ^ 32" by simp
  have i: "\<forall>c<?k. drained (wss ! c) (unat k) (replicate ?k 0 ! c) (replicate ?k ?s0 ! c)"
    by (simp add: drained_init)
  have a: "\<forall>c<?k. poll_advances MAX_ADDR (replicate ?k 0 ! c)
                     (cell_polls c (map (Pair True) Wss @ [(False, W)]))"
    using adv by simp
  have t: "\<forall>c<?k. \<forall>j<W ! c. (Vs ! c) j \<le> j + MAX_ADDR"
    using time by (simp add: copied_in_time_iff)
  from multi_drain_loop_drained[OF refl lV _ _ i a lWss lW fin t n]
  obtain ss where "multi_drain_loop wss Vs (map (Pair True) Wss @ [(False, W)]) (replicate ?k ?s0) = Some ss"
    and "length ss = ?k" and "\<forall>c<?k. drained (wss ! c) (unat k) (W ! c) (ss ! c)" by auto
  then show ?thesis by (auto simp add: drained_def)
qed

text \<open>
  Claim C1, as the code has it. The producer writes the words \<open>ws 0\<close>, \<open>ws 1\<close>, ... to
  consecutive addresses modulo the capacity of 1024 words while the loop runs. If
  between the start and the first poll, and between any two consecutive polls, it
  advances by less than the capacity, if every word is copied before the producer
  overwrites it, and if the data box has room for the \<open>W\<close> words written when the
  sequencer is found idle, then the loop returns, \<open>count\<close> is \<open>W\<close> and the first \<open>W\<close> words
  of the data box are the words written, in the order they were written: each one once,
  none skipped.
\<close>

theorem drain_loop_exact:
  fixes k :: "32 word"
  assumes "poll_advances MAX_ADDR 0 (map (Pair True) Ws @ [(False, W)])"
    and "copied_in_time V W"
    and "W \<le> unat k"
  shows "\<exists>s tr'. drain_loop ws V (map (Pair True) Ws @ [(False, W)])
                    \<lparr>d_states = replicate (unat k) 0, d_last_addr = 0, d_count = 0\<rparr> tr
                  = Some (s, tr')
           \<and> unat (d_count s) = W \<and> take W (d_states s) = map ws [0..<W]"
proof -
  have "unat k < 2 ^ LENGTH(32)" by (rule unsigned_less)
  then have n: "unat k < 2 ^ 32" by simp
  have t: "\<forall>j. 0 \<le> j \<and> j < W \<longrightarrow> V j \<le> j + MAX_ADDR"
    using assms(2) by (simp add: copied_in_time_iff)
  from drain_loop_drained[OF drained_init assms(1) t assms(3) n]
  obtain s tr' where
    "drain_loop ws V (map (Pair True) Ws @ [(False, W)])
        \<lparr>d_states = replicate (unat k) 0, d_last_addr = 0, d_count = 0\<rparr> tr = Some (s, tr')"
    and "drained ws (unat k) W s" by blast
  then show ?thesis by (auto simp add: drained_def)
qed

theorem drain_loop_exact_witness:
  "\<exists>s tr'. drain_loop word_of_nat (\<lambda>c. min 1500 (c + 1024))
                (map (Pair True) [1000] @ [(False, 1500)])
                \<lparr>d_states = replicate (unat (1500 :: 32 word)) 0, d_last_addr = 0, d_count = 0\<rparr>
                ([] :: unit event list)
              = Some (s, tr')
            \<and> unat (d_count s) = 1500
            \<and> take 1500 (d_states s) = map word_of_nat [0..<1500]"
  using drain_loop_exact[of "[1000]" 1500 "\<lambda>c. min 1500 (c + 1024)" 1500 word_of_nat
      "[] :: unit event list"]
  by (simp add: MAX_ADDR_def copied_in_time_iff)

text \<open>
  Claim C1 as stated allows an advance of up to twice the capacity between two polls
  and has no other condition. Three runs show what is missing. An advance of exactly
  the capacity is lost: the next-address register is back on \<open>last_addr\<close>, the loop
  copies nothing, and the 1024 words written are never drained. With advances below the
  capacity (2 words, then 1023) but the first copy made after the producer has written
  word 1024 over word 0, the loop returns with \<open>count = 1025\<close> and the word 1024 at the
  positions 0 and 1024 of the data box: word 0 is skipped and word 1024 is drained twice.
  And with a data box of no word (\<open>repetitions < 10\<close>) and one word written, the copy
  stores outside the box.
\<close>

theorem drain_loop_exact_counterexample:
  "poll_advances (2 * MAX_ADDR) 0 [(True, 0), (False, 1024)] \<and>
   drain_loop word_of_nat id [(True, 0), (False, 1024)]
      \<lparr>d_states = replicate 1024 0, d_last_addr = 0, d_count = 0\<rparr> ([] :: unit event list)
    = Some (\<lparr>d_states = replicate 1024 0, d_last_addr = 0, d_count = 0\<rparr>,
            [Seq_is_busy, Stg_get_next_address, Rtos_SetProgress 0,
             Seq_is_busy, Stg_get_next_address, Rtos_SetProgress 0]) \<and>
   poll_advances MAX_ADDR 0 [(True, 2), (False, 1025)] \<and>
   drain_loop word_of_nat (max 1025) [(True, 2), (False, 1025)]
      \<lparr>d_states = replicate 1025 0, d_last_addr = 0, d_count = 0\<rparr> ([] :: unit event list)
    \<noteq> None \<and>
   unat (d_count (fst (the (drain_loop word_of_nat (max 1025) [(True, 2), (False, 1025)]
      \<lparr>d_states = replicate 1025 0, d_last_addr = 0, d_count = 0\<rparr> ([] :: unit event list)))))
    = 1025 \<and>
   d_states (fst (the (drain_loop word_of_nat (max 1025) [(True, 2), (False, 1025)]
      \<lparr>d_states = replicate 1025 0, d_last_addr = 0, d_count = 0\<rparr> ([] :: unit event list)))) ! 0
    = 1024 \<and>
   d_states (fst (the (drain_loop word_of_nat (max 1025) [(True, 2), (False, 1025)]
      \<lparr>d_states = replicate 1025 0, d_last_addr = 0, d_count = 0\<rparr> ([] :: unit event list)))) ! 1024
    = 1024 \<and>
   drain_loop word_of_nat id [(False, 1)]
      \<lparr>d_states = [], d_last_addr = 0, d_count = 0\<rparr> ([] :: unit event list) = None"
proof -
  let ?ws = "word_of_nat :: nat \<Rightarrow> 32 word"
  let ?V = "max (1025 :: nat)"
  let ?s0 = "\<lparr>d_states = replicate 1025 0, d_last_addr = 0, d_count = 0\<rparr>"
  have lap: "hw_next_address 0 = 0" "hw_next_address 1024 = 0"
    by (simp_all add: hw_next_address_def MAX_ADDR_def)
  have a: "drain_loop word_of_nat id [(True, 0), (False, 1024)]
      \<lparr>d_states = replicate 1024 0, d_last_addr = 0, d_count = 0\<rparr> ([] :: unit event list)
    = Some (\<lparr>d_states = replicate 1024 0, d_last_addr = 0, d_count = 0\<rparr>,
            [Seq_is_busy, Stg_get_next_address, Rtos_SetProgress 0,
             Seq_is_busy, Stg_get_next_address, Rtos_SetProgress 0])"
    by (simp add: drain_poll_idle lap)
  have c: "drain_loop word_of_nat id [(False, 1)]
      \<lparr>d_states = [], d_last_addr = 0, d_count = 0\<rparr> ([] :: unit event list) = None"
    by (simp add: drain_poll_def Let_def hw_next_address_one drain_copy.simps[of _ _ _ 0 "Suc 0" "[]"])
  have first: "hw_bram ?ws 1025 ! 0 = 1024"
    using hw_bram_recent[of 1024 1025 ?ws] by (simp add: MAX_ADDR_def)
  have n2: "hw_next_address 2 = 2" "hw_next_address 1025 = 1"
    by (simp_all add: hw_next_address_def MAX_ADDR_def)
  from drain_copy_spec[where ws = ?ws and V = ?V and W = 2 and i = 0 and hi = 2
      and states = "replicate 1025 0" and count = 0 and c = 0]
  obtain st1 where
    d1: "drain_copy ?ws ?V 2 0 2 (replicate 1025 0) 0 = Some (st1, 2)"
    and l1: "length st1 = 1025"
    and n1: "st1 ! 0 = hw_bram ?ws (max 2 (?V 0)) ! 0"
    by auto
  have p1: "drain_poll ?ws ?V 2 ?s0 = Some \<lparr>d_states = st1, d_last_addr = 2, d_count = 2\<rparr>"
    using d1 by (simp add: drain_poll_def Let_def n2)
  from drain_copy_spec[where ws = ?ws and V = ?V and W = 1025 and i = 2 and hi = 1024
      and states = st1 and count = 2 and c = 2] l1
  obtain st2 where
    d2: "drain_copy ?ws ?V 1025 2 1024 st1 2 = Some (st2, 1024)"
    and l2: "length st2 = 1025"
    and n2': "st2 ! 0 = st1 ! 0"
    by auto
  from drain_copy_spec[where ws = ?ws and V = ?V and W = 1025 and i = 0 and hi = 1
      and states = st2 and count = 1024 and c = 1024] l2
  obtain st3 where
    d3: "drain_copy ?ws ?V 1025 0 1 st2 1024 = Some (st3, 1025)"
    and l3: "length st3 = 1025"
    and n3: "st3 ! 0 = st2 ! 0" "st3 ! 1024 = hw_bram ?ws (max 1025 (?V 1024)) ! 0"
    by auto
  have p2: "drain_poll ?ws ?V 1025 \<lparr>d_states = st1, d_last_addr = 2, d_count = 2\<rparr>
      = Some \<lparr>d_states = st3, d_last_addr = 1, d_count = 1025\<rparr>"
    using d2 d3 by (simp add: drain_poll_def Let_def n2 MAX_ADDR_def)
  have b: "drain_loop ?ws ?V [(True, 2), (False, 1025)] ?s0 ([] :: unit event list)
      = Some (\<lparr>d_states = st3, d_last_addr = 1, d_count = 1025\<rparr>,
              [Seq_is_busy, Stg_get_next_address, Rtos_SetProgress (2 * 10),
               Seq_is_busy, Stg_get_next_address, Rtos_SetProgress (1025 * 10)])"
    using p1 p2 by simp
  have v0: "st3 ! 0 = 1024" using n3(1) n2' n1 first by simp
  have v1: "st3 ! 1024 = 1024" using n3(2) first by simp
  show ?thesis using a c v0 v1 unfolding b by (simp add: MAX_ADDR_def)
qed

lemma qjn_report_errors:
  "filter is_error_report (qjn_report repetitions s) =
     (if d_count s * 10 < repetitions
      then [Rtos_PrintfError
              ''Expected %d states, but only collected %d! The remaining states could not been catched in time...''
              [repetitions, d_count s * 10]]
      else [])"
  by (simp add: qjn_report_def)

lemma qjn_report_boxes:
  "filter is_box_release (qjn_report repetitions s) =
     [Rtos_FinishDataBox (Box ''states'' 0) (d_states s)]"
  by (simp add: qjn_report_def)


text \<open>
  Claim C4 fails for quantum\_jumps\_new.c: the task never asks for the number of
  parameters. Whatever follows the first parameter is ignored, so a list of any other
  length than one is treated like the list of its first value: with the two values
  \<open>10, 99\<close> (and a producer that writes the word 5) the task reads \<open>repetitions = 10\<close>, programs the storage module, starts the
  sequencer, drains, publishes the data box and returns \<open>0\<close> without any error report.
\<close>

theorem qjn_task_entry_ignores_parameter_count:
  "qjn_task_entry (repetitions # extra) ws V polls = qjn_task_entry [repetitions] ws V polls \<and>
   qjn_task_entry [10, 99] ((!) [5]) id [(False, 1)] =
     Some ([Xil_printf ''Start Quantum Jump Collection Task'' [], Cells_create,
            Xil_printf ''Expect to collect %d states.'' [10], Cells_wait_while_busy,
            Rtos_GetDataBox (Box ''states'' 0) 4, Stg_set_bram_control,
            Stg_set_state_config, Stg_get_bram_pointer, Seq_start_at 0, Seq_is_busy,
            Stg_get_next_address, Rtos_SetProgress 10,
            Rtos_printf ''Collected %d states!'' [10],
            Rtos_FinishDataBox (Box ''states'' 0) [5], Cells_free,
            Xil_printf ''Task finished.'' []], 0)"
  by (simp add: qjn_task_entry_def Let_def drain_poll_one_word hw_bram_first qjn_report_def)

text \<open>
  Claim C5: whenever \<open>task_entry\<close> of quantum\_jumps\_new.c returns, with the drain loop
  left in state \<open>s\<close>, the only error report among its calls is the one with the requested
  count \<open>repetitions\<close> and the drained count \<open>count * 10\<close> when \<open>count * 10 < repetitions\<close>,
  and there is none otherwise; in both cases the only data box call after the allocation
  is the publication of the \<open>states\<close> box with the words drained. The box is never
  discarded.
\<close>

theorem qjn_partial_acquisition:
  assumes "qjn_task_entry (repetitions # rest) ws V polls = Some (tr, r)"
  shows "\<exists>s (tr0 :: 32 word list event list) tr1.
           drain_loop ws V polls
              \<lparr>d_states = replicate (unat (repetitions div 10)) 0, d_last_addr = 0, d_count = 0\<rparr> tr0
             = Some (s, tr1) \<and>
           filter is_error_report tr =
             (if d_count s * 10 < repetitions
              then [Rtos_PrintfError
                      ''Expected %d states, but only collected %d! The remaining states could not been catched in time...''
                      [repetitions, d_count s * 10]]
              else []) \<and>
           filter is_box_release tr = [Rtos_FinishDataBox (Box ''states'' 0) (d_states s)]"
proof -
  let ?s0 = "\<lparr>d_states = replicate (unat (repetitions div 10)) 0, d_last_addr = 0, d_count = 0\<rparr>"
  let ?tr0 = "[Xil_printf ''Start Quantum Jump Collection Task'' [],
               Cells_create,
               Xil_printf ''Expect to collect %d states.'' [repetitions],
               Cells_wait_while_busy,
               Rtos_GetDataBox (Box ''states'' 0) (4 * unat (repetitions div 10)),
               Stg_set_bram_control, Stg_set_state_config, Stg_get_bram_pointer,
               Seq_start_at 0] :: 32 word list event list"
  from assms obtain s tr1 where
    d: "drain_loop ws V polls ?s0 ?tr0 = Some (s, tr1)" and tr: "tr = tr1 @ qjn_report repetitions s"
    by (auto simp add: qjn_task_entry_def Let_def split: option.splits)
  from drain_loop_trace[OF d] have
    "filter is_error_report tr1 = []" "filter is_box_release tr1 = []" by simp_all
  hence "filter is_error_report tr = filter is_error_report (qjn_report repetitions s)"
    "filter is_box_release tr = filter is_box_release (qjn_report repetitions s)"
    unfolding tr by simp_all
  then show ?thesis using d unfolding qjn_report_errors qjn_report_boxes by blast
qed


theorem qjn_partial_acquisition_witness:
  "qjn_task_entry [20] ((!) [5]) id [(False, 1)] =
     Some ([Xil_printf ''Start Quantum Jump Collection Task'' [], Cells_create,
            Xil_printf ''Expect to collect %d states.'' [20], Cells_wait_while_busy,
            Rtos_GetDataBox (Box ''states'' 0) 8, Stg_set_bram_control,
            Stg_set_state_config, Stg_get_bram_pointer, Seq_start_at 0, Seq_is_busy,
            Stg_get_next_address, Rtos_SetProgress 10,
            Rtos_printf ''Collected %d states!'' [10],
            Rtos_PrintfError
              ''Expected %d states, but only collected %d! The remaining states could not been catched in time...''
              [20, 10],
            Rtos_FinishDataBox (Box ''states'' 0) [5, 0], Cells_free,
            Xil_printf ''Task finished.'' []], 0) \<and>
   (\<exists>s (tr0 :: 32 word list event list) tr1.
      drain_loop ((!) [5]) id [(False, 1)]
         \<lparr>d_states = replicate (unat (20 div 10 :: 32 word)) 0, d_last_addr = 0, d_count = 0\<rparr> tr0
        = Some (s, tr1) \<and>
      d_count s * 10 < 20 \<and> d_states s = [5, 0])"
proof -
  let ?tr = "[Xil_printf ''Start Quantum Jump Collection Task'' [], Cells_create,
            Xil_printf ''Expect to collect %d states.'' [20], Cells_wait_while_busy,
            Rtos_GetDataBox (Box ''states'' 0) 8, Stg_set_bram_control,
            Stg_set_state_config, Stg_get_bram_pointer, Seq_start_at 0, Seq_is_busy,
            Stg_get_next_address, Rtos_SetProgress 10,
            Rtos_printf ''Collected %d states!'' [10],
            Rtos_PrintfError
              ''Expected %d states, but only collected %d! The remaining states could not been catched in time...''
              [20, 10],
            Rtos_FinishDataBox (Box ''states'' 0) [5, 0], Cells_free,
            Xil_printf ''Task finished.'' []] :: 32 word list event list"
  have u: "replicate 2 (0 :: 32 word) = [0, 0]" by (simp add: numeral_2_eq_2)
  have h: "qjn_task_entry [20] ((!) [5]) id [(False, 1)] = Some (?tr, 0)"
    by (simp add: qjn_task_entry_def Let_def drain_poll_one_word hw_bram_first
          qjn_report_def u)
  from qjn_partial_acquisition[OF h] obtain s and tr0 :: "32 word list event list" and tr1 where
    d: "drain_loop ((!) [5]) id [(False, 1)]
          \<lparr>d_states = replicate (unat (20 div 10 :: 32 word)) 0, d_last_addr = 0, d_count = 0\<rparr> tr0
        = Some (s, tr1)"
    and e: "filter is_error_report ?tr =
             (if d_count s * 10 < 20
              then [Rtos_PrintfError
                      ''Expected %d states, but only collected %d! The remaining states could not been catched in time...''
                      [20, d_count s * 10]]
              else [])"
    and f: "filter is_box_release ?tr = [Rtos_FinishDataBox (Box ''states'' 0) (d_states s)]"
    by blast
  from e have "d_count s * 10 < 20" by (simp split: if_splits)
  moreover from f have "d_states s = [5, 0]" by simp
  ultimately show ?thesis using h d by blast
qed

section \<open>Proofs: the publication of the result boxes\<close>

lemma atomic_publication_other:
  "\<not> is_publication_call e \<Longrightarrow> atomic_publication False (e # tr) = atomic_publication False tr"
  by (cases e) simp_all

lemma atomic_publication_quiet:
  "filter is_publication_call work = [] \<Longrightarrow>
     atomic_publication False (work @ rest) = atomic_publication False rest"
proof (induction work)
  case Nil
  then show ?case by simp
next
  case (Cons e work)
  from Cons.prems have e: "\<not> is_publication_call e" and w: "filter is_publication_call work = []"
    by (simp_all split: if_splits)
  show ?case using Cons.IH[OF w] atomic_publication_other[OF e] by simp
qed

lemma atomic_publication_finishes:
  "atomic_publication True (map (\<lambda>b. Rtos_FinishDataBox b d) boxes @ Rtos_ExitCriticalSection # rest)
     = atomic_publication False rest"
  by (induction boxes) simp_all

lemma atomic_publication_group:
  "atomic_publication False (publish_group boxes @ rest) = atomic_publication False rest"
  by (simp add: publish_group_def atomic_publication_finishes)

lemma filter_publish_group: "filter is_publication_call (publish_group boxes) = publish_group boxes"
  by (simp add: publish_group_def)

lemma corr_acquire_quiet: "filter is_publication_call (corr_acquire pc n) = []"
  by (simp add: corr_acquire_def)

lemma conv_average_quiet:
  "filter is_publication_call (conv_average averages pc_start pc_start_ss measure_ss its avg) = []"
  by (simp add: conv_average_def corr_acquire_quiet)

lemma direct_average_quiet:
  "filter is_publication_call
     (direct_average n averages samp_num pc_start pc_start_ss measure_ss its avg) = []"
  by (simp add: direct_average_def corr_acquire_quiet)

lemma averages_quiet:
  "(\<And>avg. filter is_publication_call (f avg) = []) \<Longrightarrow>
     filter is_publication_call (concat (map f xs)) = []"
  by (induction xs) simp_all

lemma atomic_publication_iterations:
  "(\<And>its rest. atomic_publication False (f its @ rest) = atomic_publication False rest) \<Longrightarrow>
     atomic_publication False (concat (map f xs) @ rest) = atomic_publication False rest"
  by (induction xs) simp_all

lemma filter_iterations:
  "(\<And>its. filter P (f its) = g its) \<Longrightarrow> filter P (concat (map f xs)) = concat (map g xs)"
  by (induction xs) simp_all

text \<open>g1\_correlation\_conv.c: an iteration is work without any publication call, followed by the
  group of its result boxes.\<close>

lemma g1conv_iteration_split:
  "\<exists>work. g1conv_iteration averages pc_start pc_start_ss measure_ss its =
            work @ publish_group (result_boxes ''g1'' measure_ss its) \<and>
          filter is_publication_call work = []"
proof -
  let ?avgs = "concat (map (\<lambda>avg. conv_average averages pc_start pc_start_ss measure_ss (word_of_nat its) (word_of_nat avg)) [0..<unat averages])"
  let ?work = "[Rtos_GetDataBox (Box ''g1_result_real'' its) (N_WAVE * 8),
      Rtos_GetDataBox (Box ''g1_result_imag'' its) (N_WAVE * 8)]
     @ (if measure_ss \<noteq> 0
        then [Rtos_GetDataBox (Box ''g1_result_ss_real'' its) (N_WAVE * 8),
              Rtos_GetDataBox (Box ''g1_result_ss_imag'' its) (N_WAVE * 8)]
        else [])
     @ [Seq_wait_while_busy] @ ?avgs @ [Rtos_SetProgress ((word_of_nat its + 1) * averages)]"
  have q: "filter is_publication_call ?avgs = []"
    by (rule averages_quiet) (rule conv_average_quiet)
  have "g1conv_iteration averages pc_start pc_start_ss measure_ss its =
          ?work @ publish_group (result_boxes ''g1'' measure_ss its)"
    by (simp add: g1conv_iteration_def publish_group_def result_boxes_def)
  moreover have "filter is_publication_call ?work = []" using q by simp
  ultimately show ?thesis by blast
qed

lemma g1conv_iteration_atomic:
  "atomic_publication False (g1conv_iteration averages pc_start pc_start_ss measure_ss its @ rest) = atomic_publication False rest"
proof -
  from g1conv_iteration_split[of averages pc_start pc_start_ss measure_ss its] obtain work where
    "g1conv_iteration averages pc_start pc_start_ss measure_ss its = work @ publish_group (result_boxes ''g1'' measure_ss its)"
    and "filter is_publication_call work = []" by blast
  then show ?thesis by (simp add: atomic_publication_quiet atomic_publication_group)
qed

lemma g1conv_iteration_calls:
  "filter is_publication_call (g1conv_iteration averages pc_start pc_start_ss measure_ss its) =
     publish_group (result_boxes ''g1'' measure_ss its)"
proof -
  from g1conv_iteration_split[of averages pc_start pc_start_ss measure_ss its] obtain work where
    "g1conv_iteration averages pc_start pc_start_ss measure_ss its = work @ publish_group (result_boxes ''g1'' measure_ss its)"
    and "filter is_publication_call work = []" by blast
  then show ?thesis by (simp add: filter_publish_group)
qed

lemma g1conv_task_entry_atomic: "atomic_publication False (fst (g1conv_task_entry param_list))"
  using atomic_publication_iterations[where f = "g1conv_iteration a b c d" for a b c d,
          OF g1conv_iteration_atomic]
  by (simp add: g1conv_task_entry_def Let_def)

lemma g1conv_task_entry_calls:
  "filter is_publication_call (fst (g1conv_task_entry param_list)) =
     (if length param_list = 5
      then concat (map (\<lambda>its. publish_group (result_boxes ''g1'' (param_list ! 4) its))
                     [0..<unat (param_list ! 1)])
      else [])"
  by (simp add: g1conv_task_entry_def Let_def filter_iterations[OF g1conv_iteration_calls])

text \<open>g2\_correlation\_conv.c: an iteration is work without any publication call, followed by the
  group of its result boxes.\<close>

lemma g2conv_iteration_split:
  "\<exists>work. g2conv_iteration averages pc_start pc_start_ss measure_ss its =
            work @ publish_group (result_boxes ''g2'' measure_ss its) \<and>
          filter is_publication_call work = []"
proof -
  let ?avgs = "concat (map (\<lambda>avg. conv_average averages pc_start pc_start_ss measure_ss (word_of_nat its) (word_of_nat avg)) [0..<unat averages])"
  let ?work = "[Rtos_GetDataBox (Box ''g2_result_real'' its) (N_WAVE * 8),
      Rtos_GetDataBox (Box ''g2_result_imag'' its) (N_WAVE * 8)]
     @ (if measure_ss \<noteq> 0
        then [Rtos_GetDataBox (Box ''g2_result_ss_real'' its) (N_WAVE * 8),
              Rtos_GetDataBox (Box ''g2_result_ss_imag'' its) (N_WAVE * 8)]
        else [])
     @ [Seq_wait_while_busy] @ ?avgs @ [Rtos_SetProgress ((word_of_nat its + 1) * averages)]"
  have q: "filter is_publication_call ?avgs = []"
    by (rule averages_quiet) (rule conv_average_quiet)
  have "g2conv_iteration averages pc_start pc_start_ss measure_ss its =
          ?work @ publish_group (result_boxes ''g2'' measure_ss its)"
    by (simp add: g2conv_iteration_def publish_group_def result_boxes_def)
  moreover have "filter is_publication_call ?work = []" using q by simp
  ultimately show ?thesis by blast
qed

lemma g2conv_iteration_atomic:
  "atomic_publication False (g2conv_iteration averages pc_start pc_start_ss measure_ss its @ rest) = atomic_publication False rest"
proof -
  from g2conv_iteration_split[of averages pc_start pc_start_ss measure_ss its] obtain work where
    "g2conv_iteration averages pc_start pc_start_ss measure_ss its = work @ publish_group (result_boxes ''g2'' measure_ss its)"
    and "filter is_publication_call work = []" by blast
  then show ?thesis by (simp add: atomic_publication_quiet atomic_publication_group)
qed

lemma g2conv_iteration_calls:
  "filter is_publication_call (g2conv_iteration averages pc_start pc_start_ss measure_ss its) =
     publish_group (result_boxes ''g2'' measure_ss its)"
proof -
  from g2conv_iteration_split[of averages pc_start pc_start_ss measure_ss its] obtain work where
    "g2conv_iteration averages pc_start pc_start_ss measure_ss its = work @ publish_group (result_boxes ''g2'' measure_ss its)"
    and "filter is_publication_call work = []" by blast
  then show ?thesis by (simp add: filter_publish_group)
qed

lemma g2conv_task_entry_atomic: "atomic_publication False (fst (g2conv_task_entry param_list))"
  using atomic_publication_iterations[where f = "g2conv_iteration a b c d" for a b c d,
          OF g2conv_iteration_atomic]
  by (simp add: g2conv_task_entry_def Let_def)

lemma g2conv_task_entry_calls:
  "filter is_publication_call (fst (g2conv_task_entry param_list)) =
     (if length param_list = 5
      then concat (map (\<lambda>its. publish_group (result_boxes ''g2'' (param_list ! 4) its))
                     [0..<unat (param_list ! 1)])
      else [])"
  by (simp add: g2conv_task_entry_def Let_def filter_iterations[OF g2conv_iteration_calls])

text \<open>g1\_correlation.c: an iteration is work without any publication call, followed by the
  group of its result boxes.\<close>

lemma g1_iteration_split:
  "\<exists>work. g1_iteration averages tau_max samp_num pc_start pc_start_ss measure_ss its =
            work @ publish_group (result_boxes ''g1'' measure_ss its) \<and>
          filter is_publication_call work = []"
proof -
  let ?avgs = "concat (map (\<lambda>avg. direct_average G1CALC_SAMPLE_NUM averages samp_num pc_start pc_start_ss measure_ss (word_of_nat its) (word_of_nat avg)) [0..<unat averages])"
  let ?work = "[Rtos_GetDataBox (Box ''g1_result_real'' its) (unat (tau_max * 8)),
      Rtos_GetDataBox (Box ''g1_result_imag'' its) (unat (tau_max * 8))]
     @ (if measure_ss \<noteq> 0
        then [Rtos_GetDataBox (Box ''g1_result_ss_real'' its) (unat (tau_max * 8)),
              Rtos_GetDataBox (Box ''g1_result_ss_imag'' its) (unat (tau_max * 8))]
        else [])
     @ [Seq_wait_while_busy] @ ?avgs @ [Rtos_SetProgress ((word_of_nat its + 1) * averages)]"
  have q: "filter is_publication_call ?avgs = []"
    by (rule averages_quiet) (rule direct_average_quiet)
  have "g1_iteration averages tau_max samp_num pc_start pc_start_ss measure_ss its =
          ?work @ publish_group (result_boxes ''g1'' measure_ss its)"
    by (simp add: g1_iteration_def publish_group_def result_boxes_def)
  moreover have "filter is_publication_call ?work = []" using q by simp
  ultimately show ?thesis by blast
qed

lemma g1_iteration_atomic:
  "atomic_publication False (g1_iteration averages tau_max samp_num pc_start pc_start_ss measure_ss its @ rest) = atomic_publication False rest"
proof -
  from g1_iteration_split[of averages tau_max samp_num pc_start pc_start_ss measure_ss its] obtain work where
    "g1_iteration averages tau_max samp_num pc_start pc_start_ss measure_ss its = work @ publish_group (result_boxes ''g1'' measure_ss its)"
    and "filter is_publication_call work = []" by blast
  then show ?thesis by (simp add: atomic_publication_quiet atomic_publication_group)
qed

lemma g1_iteration_calls:
  "filter is_publication_call (g1_iteration averages tau_max samp_num pc_start pc_start_ss measure_ss its) =
     publish_group (result_boxes ''g1'' measure_ss its)"
proof -
  from g1_iteration_split[of averages tau_max samp_num pc_start pc_start_ss measure_ss its] obtain work where
    "g1_iteration averages tau_max samp_num pc_start pc_start_ss measure_ss its = work @ publish_group (result_boxes ''g1'' measure_ss its)"
    and "filter is_publication_call work = []" by blast
  then show ?thesis by (simp add: filter_publish_group)
qed

lemma g1_task_entry_atomic: "atomic_publication False (fst (g1_task_entry param_list))"
  using atomic_publication_iterations[where f = "g1_iteration a b c d e f" for a b c d e f,
          OF g1_iteration_atomic]
  by (simp add: g1_task_entry_def Let_def)

lemma g1_task_entry_calls:
  "filter is_publication_call (fst (g1_task_entry param_list)) =
     (if length param_list = 7
      then concat (map (\<lambda>its. publish_group (result_boxes ''g1'' (param_list ! 5) its))
                     [0..<unat (param_list ! 1)])
      else [])"
  by (simp add: g1_task_entry_def Let_def filter_iterations[OF g1_iteration_calls])

text \<open>g2\_correlation.c: an iteration is work without any publication call, followed by the
  group of its result boxes.\<close>

lemma g2_iteration_split:
  "\<exists>work. g2_iteration averages tau_max samp_num pc_start pc_start_ss measure_ss its =
            work @ publish_group (result_boxes ''g2'' measure_ss its) \<and>
          filter is_publication_call work = []"
proof -
  let ?avgs = "concat (map (\<lambda>avg. direct_average G2CALC_SAMPLE_NUM averages samp_num pc_start pc_start_ss measure_ss (word_of_nat its) (word_of_nat avg)) [0..<unat averages])"
  let ?work = "[Rtos_GetDataBox (Box ''g2_result_real'' its) (unat (tau_max * 8)),
      Rtos_GetDataBox (Box ''g2_result_imag'' its) (unat (tau_max * 8))]
     @ (if measure_ss \<noteq> 0
        then [Rtos_GetDataBox (Box ''g2_result_ss_real'' its) (unat (tau_max * 8)),
              Rtos_GetDataBox (Box ''g2_result_ss_imag'' its) (unat (tau_max * 8))]
        else [])
     @ [Seq_wait_while_busy] @ ?avgs @ [Rtos_SetProgress ((word_of_nat its + 1) * averages)]"
  have q: "filter is_publication_call ?avgs = []"
    by (rule averages_quiet) (rule direct_average_quiet)
  have "g2_iteration averages tau_max samp_num pc_start pc_start_ss measure_ss its =
          ?work @ publish_group (result_boxes ''g2'' measure_ss its)"
    by (simp add: g2_iteration_def publish_group_def result_boxes_def)
  moreover have "filter is_publication_call ?work = []" using q by simp
  ultimately show ?thesis by blast
qed

lemma g2_iteration_atomic:
  "atomic_publication False (g2_iteration averages tau_max samp_num pc_start pc_start_ss measure_ss its @ rest) = atomic_publication False rest"
proof -
  from g2_iteration_split[of averages tau_max samp_num pc_start pc_start_ss measure_ss its] obtain work where
    "g2_iteration averages tau_max samp_num pc_start pc_start_ss measure_ss its = work @ publish_group (result_boxes ''g2'' measure_ss its)"
    and "filter is_publication_call work = []" by blast
  then show ?thesis by (simp add: atomic_publication_quiet atomic_publication_group)
qed

lemma g2_iteration_calls:
  "filter is_publication_call (g2_iteration averages tau_max samp_num pc_start pc_start_ss measure_ss its) =
     publish_group (result_boxes ''g2'' measure_ss its)"
proof -
  from g2_iteration_split[of averages tau_max samp_num pc_start pc_start_ss measure_ss its] obtain work where
    "g2_iteration averages tau_max samp_num pc_start pc_start_ss measure_ss its = work @ publish_group (result_boxes ''g2'' measure_ss its)"
    and "filter is_publication_call work = []" by blast
  then show ?thesis by (simp add: filter_publish_group)
qed

lemma g2_task_entry_atomic: "atomic_publication False (fst (g2_task_entry param_list))"
  using atomic_publication_iterations[where f = "g2_iteration a b c d e f" for a b c d e f,
          OF g2_iteration_atomic]
  by (simp add: g2_task_entry_def Let_def)

lemma g2_task_entry_calls:
  "filter is_publication_call (fst (g2_task_entry param_list)) =
     (if length param_list = 7
      then concat (map (\<lambda>its. publish_group (result_boxes ''g2'' (param_list ! 5) its))
                     [0..<unat (param_list ! 1)])
      else [])"
  by (simp add: g2_task_entry_def Let_def filter_iterations[OF g2_iteration_calls])

lemma corrconv_task_entry_quiet:
  "filter is_publication_call (fst (corrconv_task_entry param_list)) = []"
  by (simp add: corrconv_task_entry_def Let_def)

lemma corrconv_task_entry_atomic:
  "atomic_publication False (fst (corrconv_task_entry param_list))"
  by (simp add: corrconv_task_entry_def Let_def)

lemma corrconv_publish_group:
  "corrconv_publish averages its =
     [Rtos_SetProgress ((word_of_nat its + 1) * averages)]
     @ publish_group
         [Box ''g1_result_real'' its, Box ''g1_result_imag'' its,
          Box ''g2_result_real'' its, Box ''g2_result_imag'' its,
          Box ''g1_result_ss_real'' its, Box ''g1_result_ss_imag'' its,
          Box ''g2_result_ss_real'' its, Box ''g2_result_ss_imag'' its]"
  by (simp add: corrconv_publish_def publish_group_def)

text \<open>
  Claim C6: in each of the correlation tasks (g1\_correlation\_conv.c,
  g2\_correlation\_conv.c, g1\_correlation.c, g2\_correlation.c), for every parameter list,
  the calls of the task respect the publication discipline (a box is finished only
  inside a critical section, and nothing else is called inside one), and the calls that
  enter or leave a critical section or finish a box are, iteration after iteration,
  exactly one group: enter, finish the real and the imaginary result box of the
  iteration and, when \<open>measure_ss\<close> is not \<open>0\<close>, the two background boxes, leave. With a wrong
  number of parameters nothing is published. correlation\_conv.c as it stands returns
  before its loop and publishes nothing; the end of its loop body is one group of the
  eight result boxes of the iteration.
\<close>

theorem correlation_tasks_publish_atomically:
  "(atomic_publication False (fst (g1conv_task_entry param_list)) \<and>
    filter is_publication_call (fst (g1conv_task_entry param_list)) =
      (if length param_list = 5
       then concat (map (\<lambda>its. publish_group (result_boxes ''g1'' (param_list ! 4) its))
                      [0..<unat (param_list ! 1)])
       else [])) \<and>
   (atomic_publication False (fst (g2conv_task_entry param_list)) \<and>
    filter is_publication_call (fst (g2conv_task_entry param_list)) =
      (if length param_list = 5
       then concat (map (\<lambda>its. publish_group (result_boxes ''g2'' (param_list ! 4) its))
                      [0..<unat (param_list ! 1)])
       else [])) \<and>
   (atomic_publication False (fst (g1_task_entry param_list)) \<and>
    filter is_publication_call (fst (g1_task_entry param_list)) =
      (if length param_list = 7
       then concat (map (\<lambda>its. publish_group (result_boxes ''g1'' (param_list ! 5) its))
                      [0..<unat (param_list ! 1)])
       else [])) \<and>
   (atomic_publication False (fst (g2_task_entry param_list)) \<and>
    filter is_publication_call (fst (g2_task_entry param_list)) =
      (if length param_list = 7
       then concat (map (\<lambda>its. publish_group (result_boxes ''g2'' (param_list ! 5) its))
                      [0..<unat (param_list ! 1)])
       else [])) \<and>
   (atomic_publication False (fst (corrconv_task_entry param_list)) \<and>
    filter is_publication_call (fst (corrconv_task_entry param_list)) = [] \<and>
    corrconv_publish averages its =
      [Rtos_SetProgress ((word_of_nat its + 1) * averages)]
      @ publish_group
          [Box ''g1_result_real'' its, Box ''g1_result_imag'' its,
           Box ''g2_result_real'' its, Box ''g2_result_imag'' its,
           Box ''g1_result_ss_real'' its, Box ''g1_result_ss_imag'' its,
           Box ''g2_result_ss_real'' its, Box ''g2_result_ss_imag'' its])"
  by (intro conjI g1conv_task_entry_atomic g1conv_task_entry_calls
        g2conv_task_entry_atomic g2conv_task_entry_calls
        g1_task_entry_atomic g1_task_entry_calls
        g2_task_entry_atomic g2_task_entry_calls
        corrconv_task_entry_atomic corrconv_task_entry_quiet corrconv_publish_group)

theorem correlation_tasks_publish_atomically_witness:
  "filter is_publication_call (fst (g2conv_task_entry [1, 2, 0, 8, 1])) =
     [Rtos_EnterCriticalSection,
      Rtos_FinishDataBox (Box ''g2_result_real'' 0) (),
      Rtos_FinishDataBox (Box ''g2_result_imag'' 0) (),
      Rtos_FinishDataBox (Box ''g2_result_ss_real'' 0) (),
      Rtos_FinishDataBox (Box ''g2_result_ss_imag'' 0) (),
      Rtos_ExitCriticalSection,
      Rtos_EnterCriticalSection,
      Rtos_FinishDataBox (Box ''g2_result_real'' 1) (),
      Rtos_FinishDataBox (Box ''g2_result_imag'' 1) (),
      Rtos_FinishDataBox (Box ''g2_result_ss_real'' 1) (),
      Rtos_FinishDataBox (Box ''g2_result_ss_imag'' 1) (),
      Rtos_ExitCriticalSection]"
proof -
  have u: "[0..<2] = [0, Suc 0]" by (simp add: upt_rec)
  show ?thesis
    using correlation_tasks_publish_atomically[of "[1, 2, 0, 8, 1]"]
    by (simp add: u publish_group_def result_boxes_def)
qed

end
